theory Spec2Isabelle
  imports
    Main
    "HOL-Library.Char_ord"
    "HOL-Library.List_Lexorder"
    "HOL-Library.Sublist"
    "HOL-Library.Multiset"
    "HOL-Library.Word"
begin

section \<open>Strings and paths of the Go standard library\<close>

text \<open>
  Go strings are byte sequences; \<^typ>\<open>string\<close> is a list of bytes, and the order of
  \<open>slices.Sort\<close> on strings is the byte-wise lexicographic order, which is the order
  that \<open>Char_ord\<close> and \<open>List_Lexorder\<close> give to \<^typ>\<open>string\<close>.
\<close>

text \<open>\<open>strings.HasPrefix(s, p)\<close>.\<close>

definition HasPrefix :: "string \<Rightarrow> string \<Rightarrow> bool" where
  "HasPrefix s p = prefix p s"

text \<open>
  \<open>strings.ReplaceAll(s, old, new)\<close> for a non-empty \<open>old\<close> (every call of the program
  passes a non-empty one): the non-overlapping occurrences are replaced from the left.
\<close>

function ReplaceAll :: "string \<Rightarrow> string \<Rightarrow> string \<Rightarrow> string" where
  "ReplaceAll [] old new = []"
| "ReplaceAll (c # s) old new =
     (if old \<noteq> [] \<and> prefix old (c # s)
      then new @ ReplaceAll (drop (length old) (c # s)) old new
      else c # ReplaceAll s old new)"
  by pat_completeness auto
termination
  by (relation "measure (\<lambda>(s, old, new). length s)") auto

text \<open>\<open>strings.LastIndex(s, sep)\<close> for a one-byte separator; \<open>None\<close> is Go's \<open>-1\<close>.\<close>

definition LastIndex :: "string \<Rightarrow> char \<Rightarrow> nat option" where
  "LastIndex s c =
     (if c \<in> set s
      then Some (length s - 1 - length (takeWhile (\<lambda>x. x \<noteq> c) (rev s)))
      else None)"

text \<open>\<open>strings.Split(s, "/")\<close> and \<open>strings.Join(xs, "/")\<close>.\<close>

fun split_on :: "char \<Rightarrow> string \<Rightarrow> string \<Rightarrow> string list" where
  "split_on sep acc [] = [rev acc]"
| "split_on sep acc (c # s) =
     (if c = sep then rev acc # split_on sep [] s else split_on sep (c # acc) s)"

fun join_with :: "string \<Rightarrow> string list \<Rightarrow> string" where
  "join_with sep [] = []"
| "join_with sep [x] = x"
| "join_with sep (x # y # ys) = x @ sep @ join_with sep (y # ys)"

text \<open>
  \<open>filepath.Clean\<close> on a Unix path: empty and \<open>.\<close> components are dropped, a \<open>..\<close>
  removes the component before it (at the start of a relative path it stays, at the root
  it is dropped), and the empty result is \<open>.\<close>. The accumulator holds the components
  kept so far, the last one first.
\<close>

fun clean_components :: "bool \<Rightarrow> string list \<Rightarrow> string list \<Rightarrow> string list" where
  "clean_components rooted out [] = rev out"
| "clean_components rooted out (c # cs) =
     (if c = [] \<or> c = ''.'' then clean_components rooted out cs
      else if c = ''..'' then
        (case out of
           [] \<Rightarrow> if rooted then clean_components rooted [] cs
                 else clean_components rooted [c] cs
         | p # ps \<Rightarrow> if p = ''..'' then clean_components rooted (c # out) cs
                     else clean_components rooted ps cs)
      else clean_components rooted (c # out) cs)"

definition filepath_Clean :: "string \<Rightarrow> string" where
  "filepath_Clean p =
     (if p = [] then ''.''
      else let rooted = (hd p = CHR ''/'');
               body = join_with ''/'' (clean_components rooted [] (split_on CHR ''/'' [] p))
           in if rooted then CHR ''/'' # body
              else if body = [] then ''.'' else body)"

text \<open>\<open>filepath.Dir\<close>: everything up to the last separator, cleaned.\<close>

definition filepath_Dir :: "string \<Rightarrow> string" where
  "filepath_Dir p =
     filepath_Clean (case LastIndex p CHR ''/'' of None \<Rightarrow> [] | Some i \<Rightarrow> take (Suc i) p)"

text \<open>\<open>filepath.Join\<close>: leading empty elements are skipped, the rest is joined and cleaned.\<close>

definition filepath_Join :: "string list \<Rightarrow> string" where
  "filepath_Join elems =
     (case dropWhile (\<lambda>e. e = []) elems of
        [] \<Rightarrow> []
      | e # es \<Rightarrow> filepath_Clean (join_with ''/'' (e # es)))"

text \<open>\<open>fmt.Sprintf("%d", n)\<close> for a natural number.\<close>

definition digit_char :: "nat \<Rightarrow> char" where
  "digit_char d = char_of (48 + d)"

function decimal :: "nat \<Rightarrow> string" where
  "decimal n = (if n < 10 then [digit_char n] else decimal (n div 10) @ [digit_char (n mod 10)])"
  by pat_completeness auto
termination
  by (relation "measure id") auto

declare decimal.simps [simp del]

section \<open>Errors\<close>

text \<open>
  Every failure of the program is a value. \<open>Wrapped\<close> is the \<open>fmt.Errorf\<close> of a caller
  around the error of a callee; \<open>RelativeImportPanic\<close> is the \<open>log.Panicf\<close> of the module
  resolver.
\<close>

datatype error =
    GlobFailed string
  | MatchFailed string string
  | ReadFailed string
  | RegexCompileFailed string
  | ModuleIdentNotFound string
  | RelativeImportPanic string
  | Wrapped string error

section \<open>The outside world\<close>

text \<open>
  The file tree, the glob library (\<open>doublestar\<close>) and the regular expression library are
  not part of the program; the program is modelled over any implementation of them.
  \<^item> \<open>fs_glob files_only dir pattern\<close> is \<open>doublestar.Glob(os.DirFS(dir), pattern)\<close>, with
    \<open>WithFilesOnly\<close> and \<open>WithFailOnIOErrors\<close> when \<open>files_only\<close> holds, in the order in which
    the directory walk enumerates the matches; \<open>None\<close> is an error.
  \<^item> \<open>glob_match pattern name\<close> is \<open>doublestar.Match\<close>; \<open>None\<close> is a malformed pattern.
  \<^item> \<open>fs_read path\<close> is \<open>os.ReadFile\<close>; \<open>None\<close> is an error.
  \<^item> \<open>fs_stat path\<close> is \<open>os.Stat\<close>: \<open>None\<close> is an error, \<open>Some d\<close> a file information
    whose \<open>IsDir()\<close> is \<open>d\<close>.
  \<^item> \<open>regex_find_all pattern text\<close> is \<open>regexp.Compile(pattern)\<close> followed by
    \<open>FindAllStringSubmatch(text, -1)\<close>; \<open>None\<close> is a pattern that does not compile. The
    program keeps the compiled patterns in a table of its own (\<open>regex_cache\<close>); compiling
    is a function of the pattern alone, so the table is not observable and is not modelled.
\<close>

record env =
  fs_glob :: "bool \<Rightarrow> string \<Rightarrow> string \<Rightarrow> string list option"
  glob_match :: "string \<Rightarrow> string \<Rightarrow> bool option"
  fs_read :: "string \<Rightarrow> string option"
  fs_stat :: "string \<Rightarrow> bool option"
  regex_find_all :: "string \<Rightarrow> string \<Rightarrow> string list list option"

section \<open>Configuration\<close>

text \<open>
  \<open>StringOrStringArr\<close> is its list of items. A Go map is an association list with distinct
  keys; its order is the order in which one run of the program happens to iterate.
\<close>

record RuleActions =
  Visit :: "string list"
  VisitSiblings :: "string list"
  VisitGrandSiblings :: "string list"
  VisitImportedPythonModules :: bool
  VisitPythonAllSubmodulesFor :: "string list"
  Exclude :: "string list"

record PathRule =
  Actions :: RuleActions
  RegexRules :: "(string \<times> RuleActions) list"

record Config =
  BaseDir :: string
  Inputs :: "string list"
  GlobalDeps :: "string list"
  GlobalExclude :: "string list"
  RootPythonPackages :: "string list"
  PathRules :: "(string \<times> PathRule) list"

section \<open>Python module resolver\<close>

text \<open>
  \<open>PythonModuleResolver.cache\<close> maps a module name to the paths of its result. The loop
  over the root packages decides \<open>allowed\<close>.
\<close>

type_synonym resolver_cache = "string \<rightharpoonup> string list"

definition allowed_module :: "Config \<Rightarrow> string \<Rightarrow> bool" where
  "allowed_module config module =
     (\<exists>root_python_package \<in> set (RootPythonPackages config).
        HasPrefix module (root_python_package @ ''.'') \<or> module = root_python_package)"

text \<open>One \<open>os.Stat\<close> that succeeds; for the directory form the result must be a directory.\<close>

definition stat_ok :: "env \<Rightarrow> string \<Rightarrow> string \<Rightarrow> bool" where
  "stat_ok e base_dir p = (fs_stat e (filepath_Join [base_dir, p]) \<noteq> None)"

definition stat_is_dir :: "env \<Rightarrow> string \<Rightarrow> string \<Rightarrow> bool" where
  "stat_is_dir e base_dir p = (fs_stat e (filepath_Join [base_dir, p]) = Some True)"

text \<open>The six probes of \<open>Resolve\<close>, in the order of the source: the paths they append.\<close>

definition candidate_paths :: "env \<Rightarrow> string \<Rightarrow> string \<Rightarrow> string list" where
  "candidate_paths e base_dir module =
     (let dir_path = ReplaceAll module ''.'' ''/'';
          dir_path_init = filepath_Join [dir_path, ''__init__.py'']
      in (if stat_ok e base_dir dir_path_init then [dir_path_init] else [])
       @ (if stat_ok e base_dir (dir_path @ ''.py'') then [dir_path @ ''.py''] else [])
       @ (if stat_ok e base_dir (dir_path @ ''.pyx'') then [dir_path @ ''.pyx''] else [])
       @ (if stat_ok e base_dir (dir_path @ ''.pyi'') then [dir_path @ ''.pyi''] else [])
       @ (if stat_ok e base_dir (dir_path @ ''.c'') then [dir_path @ ''.c''] else []))"

text \<open>The value of \<open>visit_parent\<close> after the six probes.\<close>

definition visit_parent :: "env \<Rightarrow> string \<Rightarrow> string \<Rightarrow> bool" where
  "visit_parent e base_dir module =
     (let dir_path = ReplaceAll module ''.'' ''/''
      in stat_ok e base_dir (filepath_Join [dir_path, ''__init__.py''])
       \<or> stat_is_dir e base_dir dir_path
       \<or> stat_ok e base_dir (dir_path @ ''.py'')
       \<or> stat_ok e base_dir (dir_path @ ''.pyx'')
       \<or> stat_ok e base_dir (dir_path @ ''.pyi'')
       \<or> stat_ok e base_dir (dir_path @ ''.c''))"

function Resolve ::
  "env \<Rightarrow> Config \<Rightarrow> string \<Rightarrow> resolver_cache \<Rightarrow> string \<Rightarrow> error + (string list \<times> resolver_cache)"
where
  "Resolve e config base_dir cache module =
     (case cache module of
        Some cached \<Rightarrow> Inr (cached, cache)
      | None \<Rightarrow>
          if \<not> allowed_module config module then Inr ([], cache(module \<mapsto> []))
          else if HasPrefix module ''.'' then Inl (RelativeImportPanic module)
          else
            let paths = candidate_paths e base_dir module
            in if visit_parent e base_dir module then
                 (case LastIndex module CHR ''.'' of
                    None \<Rightarrow> Inr (paths, cache(module \<mapsto> paths))
                  | Some idx \<Rightarrow>
                      (case Resolve e config base_dir cache (take idx module) of
                         Inl err \<Rightarrow> Inl err
                       | Inr (sub_paths, cache') \<Rightarrow>
                           Inr (paths @ sub_paths, cache'(module \<mapsto> paths @ sub_paths))))
               else Inr (paths, cache(module \<mapsto> paths)))"
  by pat_completeness auto
termination
proof (relation "measure (\<lambda>(e, config, base_dir, cache, module). length module)", goal_cases)
  case 1
  show ?case by simp
next
  case (2 e config base_dir cache module paths idx)
  then have "CHR ''.'' \<in> set module"
    by (simp add: LastIndex_def split: if_splits)
  then have "0 < length module"
    by (cases module) auto
  with \<open>LastIndex module CHR ''.'' = Some idx\<close> have "idx < length module"
    by (auto simp: LastIndex_def split: if_splits)
  then show ?case by simp
qed

declare Resolve.simps [simp del]

section \<open>Templates of a regular expression match\<close>

text \<open>
  \<open>RegexResult.applyOnTemplate\<close>: the loop replaces \<open>$i\<close> by the \<open>i\<close>-th group, for
  \<open>i\<close> from zero upwards, each replacement working on the result of the one before.
\<close>

fun applyOnTemplate_from :: "nat \<Rightarrow> string list \<Rightarrow> string \<Rightarrow> string" where
  "applyOnTemplate_from i [] out = out"
| "applyOnTemplate_from i (m # res) out =
     applyOnTemplate_from (Suc i) res (ReplaceAll out (CHR ''$'' # decimal i) m)"

definition applyOnTemplate :: "string list \<Rightarrow> string \<Rightarrow> string" where
  "applyOnTemplate res template = applyOnTemplate_from 0 res template"

definition applyOnTemplates :: "string list \<Rightarrow> string list \<Rightarrow> string list" where
  "applyOnTemplates res templates = map (applyOnTemplate res) templates"

section \<open>The import parser\<close>

text \<open>
  The three regular expressions of the import parser are fixed, so their matches are
  written out as functions on the text.

  \<open>python_import_parser_simple\<close> is \<open>(?m:^ *import ([^ \n]+))\<close>: a match starts at the
  start of a line and stays inside the line, so there is at most one per line: spaces,
  \<open>import\<close>, one space, and the longest non-empty run of bytes other than a space.
  The result is group 1 of every match.
\<close>

definition simple_import_line :: "string \<Rightarrow> string option" where
  "simple_import_line line =
     (let l = dropWhile (\<lambda>c. c = CHR '' '') line
      in if prefix ''import '' l
         then (let m = takeWhile (\<lambda>c. c \<noteq> CHR '' '') (drop 7 l)
               in if m = [] then None else Some m)
         else None)"

definition simple_imports :: "string \<Rightarrow> string list" where
  "simple_imports text = List.map_filter simple_import_line (split_on CHR 0x0A [] text)"

text \<open>
  \<open>python_import_parser_ident\<close> is \<open>[A-Za-z_][A-Za-z0-9_]*\<close>: the matches are the maximal
  runs of identifier bytes, each cut so that it does not start with a digit.
\<close>

definition ident_start :: "char \<Rightarrow> bool" where
  "ident_start c =
     ((CHR ''A'' \<le> c \<and> c \<le> CHR ''Z'') \<or> (CHR ''a'' \<le> c \<and> c \<le> CHR ''z'') \<or> c = CHR ''_'')"

definition ident_char :: "char \<Rightarrow> bool" where
  "ident_char c = (ident_start c \<or> (CHR ''0'' \<le> c \<and> c \<le> CHR ''9''))"

function find_idents :: "string \<Rightarrow> string list" where
  "find_idents [] = []"
| "find_idents (c # s) =
     (if ident_start c
      then (c # takeWhile ident_char s) # find_idents (dropWhile ident_char s)
      else find_idents s)"
  by pat_completeness auto
termination
  by (relation "measure length") (auto simp: less_Suc_eq_le length_dropWhile_le)

text \<open>
  \<open>python_import_parser_from\<close> is \<open>(?m:^ *from ([^ \n]+) import (\([^)]+\)|[^\n]+))\<close>.
  \<open>from_import_at s\<close> is the match that starts at the line start \<open>s\<close>, if there is one:
  group 1, group 2 and the number of bytes of the match. Group 2 is a parenthesised
  text up to the first closing parenthesis (it may run over several lines) when that
  alternative matches, and the rest of the line otherwise.
\<close>

definition paren_group :: "string \<Rightarrow> string option" where
  "paren_group s =
     (case s of
        [] \<Rightarrow> None
      | c # t \<Rightarrow>
          if c = CHR ''(''
          then (let inner = takeWhile (\<lambda>x. x \<noteq> CHR '')'') t
                in if inner \<noteq> [] \<and> drop (length inner) t \<noteq> []
                   then Some (CHR ''('' # inner @ '')'')
                   else None)
          else None)"

definition from_import_at :: "string \<Rightarrow> (string \<times> string \<times> nat) option" where
  "from_import_at s =
     (let spaces = takeWhile (\<lambda>c. c = CHR '' '') s;
          s1 = drop (length spaces) s
      in if \<not> prefix ''from '' s1 then None
         else
           let s2 = drop 5 s1;
               m = takeWhile (\<lambda>c. c \<noteq> CHR '' '' \<and> c \<noteq> CHR 0x0A) s2;
               s3 = drop (length m) s2
           in if m = [] \<or> \<not> prefix '' import '' s3 then None
              else
                let s4 = drop 8 s3;
                    g = (case paren_group s4 of
                           Some g \<Rightarrow> g
                         | None \<Rightarrow> takeWhile (\<lambda>c. c \<noteq> CHR 0x0A) s4)
                in if g = [] then None
                   else Some (m, g, length spaces + 5 + length m + 8 + length g))"

text \<open>The start of the next line: the text after the first newline.\<close>

fun next_line :: "string \<Rightarrow> string" where
  "next_line [] = []"
| "next_line (c # s) = (if c = CHR 0x0A then s else next_line s)"

text \<open>
  All matches: a match is tried at every line start; after a match the search goes on
  at the first line start behind it.
\<close>

function from_imports :: "string \<Rightarrow> (string \<times> string) list" where
  "from_imports s =
     (if s = [] then []
      else (case from_import_at s of
              Some (m, g, n) \<Rightarrow> (m, g) # from_imports (next_line (drop n s))
            | None \<Rightarrow> from_imports (next_line s)))"
  by pat_completeness auto
termination
proof -
  have le: "length (next_line t) \<le> length t" for t
    by (induction t) auto
  have less: "length (next_line t) < length t" if "t \<noteq> []" for t
  proof (cases t)
    case Nil
    with that show ?thesis by simp
  next
    case (Cons c u)
    with le [of u] show ?thesis by simp
  qed
  have key: "length (next_line (drop n s)) < length s" if "s \<noteq> []" for s n
  proof (cases "drop n s = []")
    case True
    with that show ?thesis by simp
  next
    case False
    then have "length (next_line (drop n s)) < length (drop n s)"
      by (rule less)
    then show ?thesis by simp
  qed
  show ?thesis
  proof (relation "measure length", goal_cases)
    case 1
    show ?case by simp
  next
    case 2
    then show ?case using less by simp
  next
    case 3
    then show ?case using key by simp
  qed
qed

declare from_imports.simps [simp del]

text \<open>
  \<open>pyimports\<close>: every module of a simple import, then for every from-import its module and
  the module joined with each imported name. \<open>pyimports_idents\<close>: the last assignment to a
  name wins.
\<close>

definition from_import_names :: "string \<times> string \<Rightarrow> (string \<times> string) list" where
  "from_import_names mg =
     map (\<lambda>import_ident. (import_ident, fst mg @ ''.'' @ import_ident)) (find_idents (snd mg))"

definition pyimports :: "string \<Rightarrow> string list" where
  "pyimports file_data =
     simple_imports file_data
     @ concat (map (\<lambda>mg. fst mg # map snd (from_import_names mg)) (from_imports file_data))"

definition pyimports_idents :: "string \<Rightarrow> string \<rightharpoonup> string" where
  "pyimports_idents file_data =
     map_of (rev (map (\<lambda>m. (m, m)) (simple_imports file_data)
                  @ concat (map from_import_names (from_imports file_data))))"

section \<open>Relation engine\<close>

text \<open>
  A computation of the program either does not return (\<open>None\<close>), or fails with an error,
  or returns a value.
\<close>

type_synonym 'a result = "(error + 'a) option"

text \<open>
  One loop over glob patterns: every pattern is expanded below \<open>dir\<close> (files only) and the
  matches are appended after \<open>anchor\<close> has been applied to them. \<open>Inl\<close> is the pattern
  whose expansion failed.
\<close>

fun glob_append ::
  "env \<Rightarrow> string \<Rightarrow> (string \<Rightarrow> string) \<Rightarrow> string list \<Rightarrow> string list \<Rightarrow> string + string list"
where
  "glob_append e dir anchor [] file_relations = Inr file_relations"
| "glob_append e dir anchor (visit # visits) file_relations =
     (case fs_glob e True dir visit of
        None \<Rightarrow> Inl visit
      | Some visit_files_chunk \<Rightarrow>
          glob_append e dir anchor visits (file_relations @ map anchor visit_files_chunk))"

text \<open>
  The loop \<open>for path_iter != "."\<close> of the grand siblings. \<open>filepath.Dir\<close> of a rooted path
  never becomes \<open>.\<close>, so the loop need not end.
\<close>

partial_function (option) grand_siblings_loop ::
  "env \<Rightarrow> string \<Rightarrow> string list \<Rightarrow> string \<Rightarrow> string list \<Rightarrow> (error + string list) option"
where
  "grand_siblings_loop e base_dir visits path_iter file_relations =
     (if path_iter = ''.'' then Some (Inr file_relations)
      else
        (case glob_append e (filepath_Join [base_dir, path_iter])
                (\<lambda>visit_file. filepath_Join [path_iter, visit_file]) visits file_relations of
           Inl visit \<Rightarrow>
             Some (Inl (Wrapped (''error while visiting grand sibling '' @ visit @ '' at '' @ path_iter)
                          (GlobFailed visit)))
         | Inr file_relations' \<Rightarrow>
             grand_siblings_loop e base_dir visits (filepath_Dir path_iter) file_relations'))"

declare grand_siblings_loop.simps [code]

text \<open>The file text behind \<open>file_data\<close>: read on first need, kept afterwards.\<close>

definition read_file_data :: "env \<Rightarrow> string \<Rightarrow> string \<Rightarrow> string option \<Rightarrow> string option" where
  "read_file_data e base_dir file file_data =
     (case file_data of
        Some data \<Rightarrow> Some data
      | None \<Rightarrow> fs_read e (filepath_Join [base_dir, file]))"

text \<open>The loop over \<open>visit_python_all_submodules_for\<close>.\<close>

fun visit_all_submodules ::
  "env \<Rightarrow> Config \<Rightarrow> string \<Rightarrow> (string \<rightharpoonup> string) \<Rightarrow> string list \<Rightarrow> string list \<Rightarrow> error + string list"
where
  "visit_all_submodules e config base_dir idents [] file_relations = Inr file_relations"
| "visit_all_submodules e config base_dir idents (mod_name # mod_names) file_relations =
     (case (if allowed_module config mod_name then Some mod_name else idents mod_name) of
        None \<Rightarrow> Inl (ModuleIdentNotFound mod_name)
      | Some full_mod_name \<Rightarrow>
          (case fs_glob e True base_dir (ReplaceAll full_mod_name ''.'' ''/'' @ ''/**/*.py'') of
             None \<Rightarrow>
               Inl (Wrapped (''error while visiting submodule '' @ full_mod_name)
                      (GlobFailed (ReplaceAll full_mod_name ''.'' ''/'' @ ''/**/*.py'')))
           | Some visit_files_chunk \<Rightarrow>
               visit_all_submodules e config base_dir idents mod_names
                 (file_relations @ visit_files_chunk)))"

text \<open>The loop that resolves the imports; a panic of the resolver is not wrapped.\<close>

fun resolve_imports ::
  "env \<Rightarrow> Config \<Rightarrow> string \<Rightarrow> string list \<Rightarrow> string list \<Rightarrow> resolver_cache
     \<Rightarrow> error + (string list \<times> resolver_cache)"
where
  "resolve_imports e config base_dir [] file_relations cache = Inr (file_relations, cache)"
| "resolve_imports e config base_dir (module # modules) file_relations cache =
     (case Resolve e config base_dir cache module of
        Inl err \<Rightarrow> Inl err
      | Inr (paths, cache') \<Rightarrow>
          resolve_imports e config base_dir modules (file_relations @ paths) cache')"

text \<open>
  The state that \<open>applyActions\<close> works on: the text of the file if it has been read
  (\<open>file_data\<close>), the relations collected so far (\<open>file_relations\<close>), and the cache of the
  module resolver.
\<close>

record visit_state =
  file_data :: "string option"
  file_relations :: "string list"
  resolver :: resolver_cache

definition visit_imported_python ::
  "env \<Rightarrow> Config \<Rightarrow> string \<Rightarrow> RuleActions \<Rightarrow> string \<Rightarrow> string list \<Rightarrow> visit_state
     \<Rightarrow> error + visit_state"
where
  "visit_imported_python e config base_dir actions file regex_result st =
     (if VisitImportedPythonModules actions \<or> VisitPythonAllSubmodulesFor actions \<noteq> [] then
        (case read_file_data e base_dir file (file_data st) of
           None \<Rightarrow>
             Inl (Wrapped ''error while reading python file''
                    (ReadFailed (filepath_Join [base_dir, file])))
         | Some data \<Rightarrow>
             (case visit_all_submodules e config base_dir (pyimports_idents data)
                     (applyOnTemplates regex_result (VisitPythonAllSubmodulesFor actions))
                     (file_relations st) of
                Inl err \<Rightarrow> Inl err
              | Inr rels \<Rightarrow>
                  (case resolve_imports e config base_dir (pyimports data) rels (resolver st) of
                     Inl err \<Rightarrow> Inl err
                   | Inr (rels', cache') \<Rightarrow>
                       Inr \<lparr> file_data = Some data, file_relations = rels', resolver = cache' \<rparr>)))
      else Inr st)"

definition applyActions ::
  "env \<Rightarrow> Config \<Rightarrow> string \<Rightarrow> RuleActions \<Rightarrow> string \<Rightarrow> string list \<Rightarrow> visit_state
     \<Rightarrow> visit_state result"
where
  "applyActions e config base_dir actions file regex_result st =
     (case glob_append e base_dir (\<lambda>visit_file. visit_file)
             (applyOnTemplates regex_result (Visit actions)) (file_relations st) of
        Inl visit \<Rightarrow> Some (Inl (Wrapped (''error while visiting '' @ visit) (GlobFailed visit)))
      | Inr rels1 \<Rightarrow>
          let path_iter = filepath_Dir file
          in (case glob_append e (filepath_Join [base_dir, path_iter])
                     (\<lambda>visit_file. filepath_Join [path_iter, visit_file])
                     (applyOnTemplates regex_result (VisitSiblings actions)) rels1 of
                Inl visit \<Rightarrow>
                  Some (Inl (Wrapped (''error while visiting sibling '' @ visit) (GlobFailed visit)))
              | Inr rels2 \<Rightarrow>
                  (case grand_siblings_loop e base_dir
                          (applyOnTemplates regex_result (VisitGrandSiblings actions))
                          path_iter rels2 of
                     None \<Rightarrow> None
                   | Some (Inl err) \<Rightarrow> Some (Inl err)
                   | Some (Inr rels3) \<Rightarrow>
                       Some (visit_imported_python e config base_dir actions file regex_result
                               (st\<lparr>file_relations := rels3\<rparr>)))))"

text \<open>\<open>checkExcludePatterns\<close>.\<close>

fun checkExcludePatterns :: "env \<Rightarrow> string list \<Rightarrow> string \<Rightarrow> error + bool" where
  "checkExcludePatterns e [] file = Inr False"
| "checkExcludePatterns e (excluded_file # exclude_patterns) file =
     (case glob_match e excluded_file file of
        None \<Rightarrow> Inl (MatchFailed excluded_file file)
      | Some match \<Rightarrow> if match then Inr True else checkExcludePatterns e exclude_patterns file)"

text \<open>The loop over the matches of one regex rule.\<close>

fun apply_regex_matches ::
  "env \<Rightarrow> Config \<Rightarrow> string \<Rightarrow> RuleActions \<Rightarrow> string \<Rightarrow> string list list \<Rightarrow> visit_state
     \<Rightarrow> visit_state result"
where
  "apply_regex_matches e config base_dir regex_actions file [] st = Some (Inr st)"
| "apply_regex_matches e config base_dir regex_actions file (regex_match # regex_matches) st =
     (case applyActions e config base_dir regex_actions file regex_match st of
        None \<Rightarrow> None
      | Some (Inl err) \<Rightarrow> Some (Inl (Wrapped ''error while running regex rule'' err))
      | Some (Inr st') \<Rightarrow> apply_regex_matches e config base_dir regex_actions file regex_matches st')"

text \<open>The loop over the regex rules of one path rule.\<close>

fun apply_regex_rules ::
  "env \<Rightarrow> Config \<Rightarrow> string \<Rightarrow> string \<Rightarrow> (string \<times> RuleActions) list \<Rightarrow> visit_state
     \<Rightarrow> visit_state result"
where
  "apply_regex_rules e config base_dir file [] st = Some (Inr st)"
| "apply_regex_rules e config base_dir file ((regex_rule_pattern, regex_actions) # regex_rules) st =
     (case checkExcludePatterns e (Exclude regex_actions) file of
        Inl err \<Rightarrow> Some (Inl (Wrapped (''error checking exclude of '' @ regex_rule_pattern) err))
      | Inr excluded \<Rightarrow>
          if excluded then apply_regex_rules e config base_dir file regex_rules st
          else
            (case read_file_data e base_dir file (file_data st) of
               None \<Rightarrow>
                 Some (Inl (Wrapped ''error while reading python file''
                              (ReadFailed (filepath_Join [base_dir, file]))))
             | Some data \<Rightarrow>
                 (case regex_find_all e regex_rule_pattern data of
                    None \<Rightarrow>
                      Some (Inl (Wrapped (''error while compiling regex rule '' @ regex_rule_pattern)
                                   (RegexCompileFailed regex_rule_pattern)))
                  | Some regex_matches \<Rightarrow>
                      (case apply_regex_matches e config base_dir regex_actions file regex_matches
                              (st\<lparr>file_data := Some data\<rparr>) of
                         None \<Rightarrow> None
                       | Some (Inl err) \<Rightarrow> Some (Inl err)
                       | Some (Inr st') \<Rightarrow>
                           apply_regex_rules e config base_dir file regex_rules st'))))"

text \<open>
  The loop over the path rules. \<open>file_data\<close> is a variable of the loop body, so every rule
  starts without the text.
\<close>

fun apply_path_rules ::
  "env \<Rightarrow> Config \<Rightarrow> string \<Rightarrow> string \<Rightarrow> (string \<times> PathRule) list \<Rightarrow> visit_state
     \<Rightarrow> visit_state result"
where
  "apply_path_rules e config base_dir file [] st = Some (Inr st)"
| "apply_path_rules e config base_dir file ((rule_pattern, path_rules) # rules) st =
     (case glob_match e rule_pattern file of
        None \<Rightarrow> Some (Inl (Wrapped (''error matching rule '' @ rule_pattern)
                             (MatchFailed rule_pattern file)))
      | Some match \<Rightarrow>
          if \<not> match then apply_path_rules e config base_dir file rules st
          else
            (case applyActions e config base_dir (Actions path_rules) file []
                    (st\<lparr>file_data := None\<rparr>) of
               None \<Rightarrow> None
             | Some (Inl err) \<Rightarrow>
                 Some (Inl (Wrapped (''error while running path_rule '' @ rule_pattern) err))
             | Some (Inr st1) \<Rightarrow>
                 (case apply_regex_rules e config base_dir file (RegexRules path_rules) st1 of
                    None \<Rightarrow> None
                  | Some (Inl err) \<Rightarrow>
                      Some (Inl (Wrapped (''error while running path_rule '' @ rule_pattern) err))
                  | Some (Inr st2) \<Rightarrow> apply_path_rules e config base_dir file rules st2)))"

text \<open>
  \<open>visitFile\<close> appends to \<open>file_relations\<close> and fills the cache of the resolver.
\<close>

definition visitFile ::
  "env \<Rightarrow> Config \<Rightarrow> string \<Rightarrow> string \<Rightarrow> string list \<Rightarrow> resolver_cache
     \<Rightarrow> (string list \<times> resolver_cache) result"
where
  "visitFile e config base_dir file rels cache =
     (case checkExcludePatterns e (GlobalExclude config) file of
        Inl err \<Rightarrow> Some (Inl (Wrapped ''error checking global_exclude'' err))
      | Inr excluded \<Rightarrow>
          if excluded then Some (Inr (rels, cache))
          else
            (case apply_path_rules e config base_dir file (PathRules config)
                    \<lparr> file_data = None, file_relations = rels, resolver = cache \<rparr> of
               None \<Rightarrow> None
             | Some (Inl err) \<Rightarrow> Some (Inl err)
             | Some (Inr st) \<Rightarrow> Some (Inr (file_relations st, resolver st))))"

section \<open>Graph builder\<close>

text \<open>
  \<open>VisitRecursively\<close> starts the relations of every file with
  \<open>file_relations := config.GlobalDeps.items\<close>, which copies the slice, not its array. The
  decoder of the configuration makes that slice as long as its array, so the first
  \<open>append\<close> in \<open>visitFile\<close> moves the relations to an array of their own; when nothing is
  appended, \<open>slices.Sort\<close> and \<open>slices.Compact\<close> work in the array of the configuration
  itself, \<open>slices.Compact\<close> clears the elements behind the compacted ones, and the entry
  stored in \<open>file_relation_map\<close> is a slice of that array. The model therefore keeps the
  array of \<open>config.GlobalDeps.items\<close> (whose length never changes) in the state, and an
  entry of the relation map is either a list of its own or the first \<open>k\<close> elements of
  that array.
\<close>

datatype relation_slice = Own "string list" | Shared nat

record graph_state =
  all_files_set :: "string set"
  file_relation_map :: "(string \<times> relation_slice) list"
  global_deps_items :: "string list"
  python_mod_resolver :: resolver_cache

text \<open>\<open>slices.Sort\<close>, \<open>slices.Compact\<close> and the store into \<open>file_relation_map\<close>.\<close>

definition save_relations :: "string \<Rightarrow> string list \<Rightarrow> graph_state \<Rightarrow> graph_state \<times> string list" where
  "save_relations file rels st =
     (let compacted = remdups_adj (sort rels)
      in if length rels = length (global_deps_items st)
         then (st\<lparr> global_deps_items :=
                     compacted @ replicate (length rels - length compacted) [],
                   file_relation_map :=
                     (file, Shared (length compacted)) # file_relation_map st \<rparr>,
               compacted)
         else (st\<lparr> file_relation_map := (file, Own compacted) # file_relation_map st \<rparr>,
               compacted))"

text \<open>The loop over the input files of one wave.\<close>

fun visit_input_files ::
  "env \<Rightarrow> Config \<Rightarrow> string \<Rightarrow> string list \<Rightarrow> graph_state \<Rightarrow> string list
     \<Rightarrow> (graph_state \<times> string list) result"
where
  "visit_input_files e config base_dir [] st related_files = Some (Inr (st, related_files))"
| "visit_input_files e config base_dir (file # input_files) st related_files =
     (if file \<in> all_files_set st
      then visit_input_files e config base_dir input_files st related_files
      else
        (case visitFile e config base_dir file (global_deps_items st) (python_mod_resolver st) of
           None \<Rightarrow> None
         | Some (Inl err) \<Rightarrow> Some (Inl (Wrapped (''error while visiting file '' @ file) err))
         | Some (Inr (rels, cache')) \<Rightarrow>
             (case save_relations file rels
                     (st\<lparr> all_files_set := insert file (all_files_set st),
                          python_mod_resolver := cache' \<rparr>) of
                (st', compacted) \<Rightarrow>
                  visit_input_files e config base_dir input_files st'
                    (related_files @ compacted))))"

text \<open>The outer loop: one wave after the other, until a wave relates no file.\<close>

partial_function (option) visit_waves ::
  "env \<Rightarrow> Config \<Rightarrow> string \<Rightarrow> string list \<Rightarrow> graph_state \<Rightarrow> (error + graph_state) option"
where
  "visit_waves e config base_dir input_files st =
     (case visit_input_files e config base_dir input_files st [] of
        None \<Rightarrow> None
      | Some (Inl err) \<Rightarrow> Some (Inl err)
      | Some (Inr (st', related_files)) \<Rightarrow>
          if related_files \<noteq> []
          then visit_waves e config base_dir (remdups_adj (sort related_files)) st'
          else Some (Inr st'))"

declare visit_waves.simps [code]

text \<open>
  \<open>VisitRecursively\<close>, called by \<open>main\<close> with an empty \<open>all_files_set\<close> and an empty
  \<open>file_relation_map\<close>.
\<close>

definition VisitRecursively ::
  "env \<Rightarrow> Config \<Rightarrow> string \<Rightarrow> string list \<Rightarrow> graph_state result"
where
  "VisitRecursively e config base_dir input_files =
     visit_waves e config base_dir input_files
       \<lparr> all_files_set = {}, file_relation_map = [],
         global_deps_items = GlobalDeps config, python_mod_resolver = Map.empty \<rparr>"

text \<open>What the relation map holds once the graph is built.\<close>

definition slice_items :: "string list \<Rightarrow> relation_slice \<Rightarrow> string list" where
  "slice_items items s = (case s of Own xs \<Rightarrow> xs | Shared k \<Rightarrow> take k items)"

definition relations_of :: "graph_state \<Rightarrow> (string \<times> string list) list" where
  "relations_of st =
     map (\<lambda>(file, s). (file, slice_items (global_deps_items st) s)) (file_relation_map st)"

section \<open>Closure and hash pipeline\<close>

text \<open>A key that is not in a Go map reads as the empty slice.\<close>

definition related :: "(string \<times> string list) list \<Rightarrow> string \<Rightarrow> string list" where
  "related relation_map file =
     (case map_of relation_map file of None \<Rightarrow> [] | Some rels \<Rightarrow> rels)"

text \<open>
  The files that are reachable from a file over the relation map, the file itself
  included.
\<close>

definition relation_edges :: "(string \<times> string list) list \<Rightarrow> (string \<times> string) set" where
  "relation_edges relation_map = {(a, b). b \<in> set (related relation_map a)}"

definition reachable_files :: "(string \<times> string list) list \<Rightarrow> string \<Rightarrow> string set" where
  "reachable_files relation_map file = (relation_edges relation_map)\<^sup>* `` {file}"

text \<open>
  The closure \<open>buildDepList\<close> of \<open>BuildFullDepList\<close>, run over a list of files as the loop
  \<open>for _, related_file := range ... { buildDepList(related_file) }\<close> does; the state is
  \<open>visited\<close> and \<open>dep_list\<close>.
\<close>

partial_function (option) buildDepList ::
  "(string \<times> string list) list \<Rightarrow> string list \<Rightarrow> string set \<times> string list
     \<Rightarrow> (string set \<times> string list) option"
where
  "buildDepList relation_map files st =
     (case files of
        [] \<Rightarrow> Some st
      | file # rest \<Rightarrow>
          if file \<in> fst st then buildDepList relation_map rest st
          else
            Option.bind
              (buildDepList relation_map (related relation_map file)
                 (insert file (fst st), snd st))
              (\<lambda>st'. buildDepList relation_map rest (fst st', snd st' @ [file])))"

declare buildDepList.simps [code]

definition BuildFullDepList :: "(string \<times> string list) list \<Rightarrow> string \<Rightarrow> string list option" where
  "BuildFullDepList relation_map file =
     map_option (\<lambda>st. sort (snd st)) (buildDepList relation_map [file] ({}, []))"

text \<open>
  The hasher is the sequence of the bytes written to it; \<open>Sum\<close> applies the hash function.
  \<open>binary.Write\<close> with \<open>binary.LittleEndian\<close> writes the eight bytes of a \<open>uint64\<close>, the
  lowest first; \<open>%x\<close> prints two lower-case hexadecimal digits for every byte.
\<close>

definition ALGORITHM_VERSION :: "64 word" where
  "ALGORITHM_VERSION = 1"

definition little_endian_bytes :: "64 word \<Rightarrow> string" where
  "little_endian_bytes w = map (\<lambda>i. char_of (unat (drop_bit (8 * i) w))) [0..<8]"

definition hex_digit :: "nat \<Rightarrow> char" where
  "hex_digit n = ''0123456789abcdef'' ! n"

definition hex_encode :: "string \<Rightarrow> string" where
  "hex_encode bs =
     concat (map (\<lambda>c. [hex_digit (of_char c div 16), hex_digit (of_char c mod 16)]) bs)"

definition hasher_Write :: "string \<Rightarrow> string \<Rightarrow> string" where
  "hasher_Write hasher bs = hasher @ bs"

text \<open>\<open>fileHashes[dep]\<close>: a missing key reads as thirty-two zero bytes.\<close>

definition file_hash :: "(string \<rightharpoonup> string) \<Rightarrow> string \<Rightarrow> string" where
  "file_hash fileHashes dep =
     (case fileHashes dep of None \<Rightarrow> replicate 32 (CHR 0x00) | Some h \<Rightarrow> h)"

fun write_deps :: "(string \<rightharpoonup> string) \<Rightarrow> string list \<Rightarrow> string \<Rightarrow> string" where
  "write_deps fileHashes [] hasher = hasher"
| "write_deps fileHashes (dep # dep_list) hasher =
     write_deps fileHashes dep_list
       (hasher_Write (hasher_Write hasher dep) (file_hash fileHashes dep))"

definition dependency_hash ::
  "(string \<Rightarrow> string) \<Rightarrow> string \<Rightarrow> string \<Rightarrow> (string \<rightharpoonup> string) \<Rightarrow> string \<Rightarrow> string list \<Rightarrow> string"
where
  "dependency_hash sha256 hash_salt config_hash fileHashes file_name dep_list =
     hex_encode (sha256
       (write_deps fileHashes dep_list
          (hasher_Write
             (hasher_Write
                (hasher_Write
                   (hasher_Write [] (little_endian_bytes ALGORITHM_VERSION))
                   hash_salt)
                config_hash)
             file_name)))"


section \<open>The program\<close>

text \<open>
  The flags that decide what the program computes (\<open>-verbose\<close>, \<open>-self-profile\<close> and
  \<open>-stats-sort\<close> change only what is logged).
\<close>

record Args =
  ConfigPath :: string
  InputFiles :: "string list"
  PrintDepStats :: bool
  PrintRevDepStats :: bool
  OutDepHashes :: string
  OutRelations :: string
  OutRecursiveDeps :: string
  OutRecursiveDepsFor :: string
  HashSalt :: string

text \<open>
  What a run that reaches the end of \<open>main\<close> has written: the relations, the dependency
  hashes (both as JSON objects, whose keys the encoder sorts) and the recursive
  dependencies of one file, each when its flag asks for it.
\<close>

record outputs =
  relations_json :: "(string \<times> string list) list option"
  dep_hashes_json :: "(string \<times> string) list option"
  recursive_deps_json :: "string list option"

text \<open>
  \<open>Fatal\<close> is a call of \<open>log.Fatalf\<close> or \<open>log.Fatalln\<close>, which logs the message and ends
  the process with exit status 1, or a panic; \<open>Completed\<close> is the return from \<open>main\<close>,
  with exit status 0.
\<close>

datatype exit = Fatal string | Completed outputs

text \<open>
  \<open>LoadConfig\<close>: the decoder of YAML is an argument (\<open>decode\<close>), and so is the hash
  function \<open>sha256.Sum256\<close>.
\<close>

definition LoadConfig ::
  "(string \<Rightarrow> string) \<Rightarrow> (string \<Rightarrow> Config option) \<Rightarrow> env \<Rightarrow> string
     \<Rightarrow> (Config \<times> string) option"
where
  "LoadConfig sha256 decode e path =
     (case fs_read e path of
        None \<Rightarrow> None
      | Some data \<Rightarrow>
          (case decode data of
             None \<Rightarrow> None
           | Some config \<Rightarrow> Some (config, sha256 data)))"

text \<open>The loop that collects the input files; \<open>Inl\<close> is the pattern that failed.\<close>

fun collect_input_files :: "env \<Rightarrow> string \<Rightarrow> string list \<Rightarrow> string list \<Rightarrow> string + string list" where
  "collect_input_files e base_dir [] input_files = Inr input_files"
| "collect_input_files e base_dir (input # inputs) input_files =
     (case fs_glob e False base_dir input of
        None \<Rightarrow> Inl input
      | Some input_files_chunk \<Rightarrow>
          collect_input_files e base_dir inputs (input_files @ input_files_chunk))"

text \<open>
  \<open>CalculateFileHashes\<close>: the hash of the content of every file of \<open>all_files_set\<close>;
  \<open>None\<close> when a file cannot be read, which is fatal.
\<close>

definition CalculateFileHashes ::
  "(string \<Rightarrow> string) \<Rightarrow> env \<Rightarrow> string set \<Rightarrow> string \<Rightarrow> (string \<rightharpoonup> string) option"
where
  "CalculateFileHashes sha256 e files base_dir =
     (if \<exists>file_name \<in> files. fs_read e (filepath_Join [base_dir, file_name]) = None then None
      else Some (\<lambda>file_name.
             if file_name \<in> files
             then map_option sha256 (fs_read e (filepath_Join [base_dir, file_name]))
             else None))"

text \<open>
  The tasks of the input files, one after the other in the order \<open>order\<close> in which they
  complete: each computes the closure of its file and stores its hash under the name of
  the file.
\<close>

fun hash_tasks ::
  "(string \<Rightarrow> string) \<Rightarrow> Args \<Rightarrow> string \<Rightarrow> (string \<rightharpoonup> string) \<Rightarrow> (string \<times> string list) list
     \<Rightarrow> string list \<Rightarrow> (string \<rightharpoonup> string) \<Rightarrow> (string \<rightharpoonup> string) option"
where
  "hash_tasks sha256 args config_hash fileHashes relation_map [] dep_hashes = Some dep_hashes"
| "hash_tasks sha256 args config_hash fileHashes relation_map (file_name # order) dep_hashes =
     (case BuildFullDepList relation_map file_name of
        None \<Rightarrow> None
      | Some dep_list \<Rightarrow>
          hash_tasks sha256 args config_hash fileHashes relation_map order
            (if OutDepHashes args \<noteq> []
             then dep_hashes(file_name \<mapsto>
                    dependency_hash sha256 (HashSalt args) config_hash fileHashes file_name dep_list)
             else dep_hashes))"

text \<open>The entries of a table for the sorted keys \<open>keys\<close>, as the JSON encoder writes them.\<close>

definition json_object :: "string list \<Rightarrow> (string \<rightharpoonup> 'a) \<Rightarrow> (string \<times> 'a) list" where
  "json_object keys table =
     List.map_filter (\<lambda>k. map_option (Pair k) (table k)) (remdups_adj (sort keys))"

text \<open>
  The configuration after the flag \<open>-input-files\<close> has been applied, and the base
  directory.
\<close>

definition effective_config :: "Args \<Rightarrow> Config \<Rightarrow> Config" where
  "effective_config args config =
     (if length (InputFiles args) > 0 \<and> hd (InputFiles args) \<noteq> []
      then config\<lparr>Inputs := InputFiles args\<rparr> else config)"

definition base_dir_of :: "Args \<Rightarrow> Config \<Rightarrow> string" where
  "base_dir_of args config = filepath_Join [filepath_Dir (ConfigPath args), BaseDir config]"

text \<open>
  The part of \<open>main\<close> behind the graph builder: the outputs, computed from the state in
  which \<open>VisitRecursively\<close> has left \<open>all_files_set\<close> and \<open>file_relation_map\<close>. \<open>order\<close> is
  the order in which the tasks of the input files complete.
\<close>

definition write_outputs ::
  "(string \<Rightarrow> string) \<Rightarrow> env \<Rightarrow> Args \<Rightarrow> string \<Rightarrow> string \<Rightarrow> string list \<Rightarrow> string list
     \<Rightarrow> graph_state \<Rightarrow> exit option"
where
  "write_outputs sha256 e args config_hash base_dir input_files order st =
     (let relation_map = relations_of st;
          out = \<lparr> relations_json =
                   (if OutRelations args \<noteq> []
                    then Some (json_object (map fst relation_map) (map_of relation_map))
                    else None),
                 dep_hashes_json = None, recursive_deps_json = None \<rparr>
      in if \<not> PrintDepStats args \<and> \<not> PrintRevDepStats args
            \<and> OutDepHashes args = [] \<and> OutRecursiveDeps args = []
         then Some (Completed out)
         else
           (case (if OutDepHashes args \<noteq> []
                  then CalculateFileHashes sha256 e (all_files_set st) base_dir
                  else Some Map.empty) of
              None \<Rightarrow> Some (Fatal ''Error while reading file'')
            | Some fileHashes \<Rightarrow>
                (case hash_tasks sha256 args config_hash fileHashes relation_map order
                        Map.empty of
                   None \<Rightarrow> None
                 | Some dep_hashes \<Rightarrow>
                     Some (Completed (out\<lparr>
                       dep_hashes_json :=
                         (if OutDepHashes args \<noteq> []
                          then Some (json_object input_files dep_hashes)
                          else None),
                       recursive_deps_json :=
                         (if OutRecursiveDepsFor args \<in> set input_files
                          then BuildFullDepList relation_map (OutRecursiveDepsFor args)
                          else None) \<rparr>)))))"

text \<open>
  \<open>main\<close>, from the loaded configuration on. \<open>order\<close> gives the order in which the tasks
  of the input files complete, a permutation of the input files.
\<close>

definition main_with_config ::
  "(string \<Rightarrow> string) \<Rightarrow> env \<Rightarrow> Args \<Rightarrow> Config \<Rightarrow> string \<Rightarrow> (string list \<Rightarrow> string list)
     \<Rightarrow> exit option"
where
  "main_with_config sha256 e args config0 config_hash order =
     (let config = effective_config args config0;
          base_dir = base_dir_of args config
      in case collect_input_files e base_dir (Inputs config) [] of
           Inl input \<Rightarrow> Some (Fatal (''error while collecting input files: glob '' @ input))
         | Inr collected \<Rightarrow>
             let input_files = remdups_adj (sort collected)
             in if length input_files = 0 then Some (Fatal ''No input files found. Exiting.'')
                else
                  (case VisitRecursively e config base_dir input_files of
                     None \<Rightarrow> None
                   | Some (Inl err) \<Rightarrow> Some (Fatal ''error while visiting files'')
                   | Some (Inr st) \<Rightarrow>
                       write_outputs sha256 e args config_hash base_dir input_files
                         (order input_files) st))"

definition main ::
  "(string \<Rightarrow> string) \<Rightarrow> (string \<Rightarrow> Config option) \<Rightarrow> env \<Rightarrow> Args \<Rightarrow> (string list \<Rightarrow> string list)
     \<Rightarrow> exit option"
where
  "main sha256 decode e args order =
     (case LoadConfig sha256 decode e (ConfigPath args) of
        None \<Rightarrow> Some (Fatal ''failed to load config file'')
      | Some (config, config_hash) \<Rightarrow> main_with_config sha256 e args config config_hash order)"

section \<open>Runs that differ in the order of enumeration\<close>

text \<open>
  Two outside worlds are alike when they differ at most in the order in which a glob
  enumerates its matches.
\<close>

definition env_equiv :: "env \<Rightarrow> env \<Rightarrow> bool" where
  "env_equiv e1 e2 \<longleftrightarrow>
     glob_match e1 = glob_match e2 \<and> fs_read e1 = fs_read e2 \<and> fs_stat e1 = fs_stat e2
     \<and> regex_find_all e1 = regex_find_all e2
     \<and> (\<forall>files_only dir pattern.
           rel_option (\<lambda>xs ys. mset xs = mset ys)
             (fs_glob e1 files_only dir pattern) (fs_glob e2 files_only dir pattern))"

text \<open>
  Two configurations are alike when they differ at most in the order of the path rules
  and, inside a path rule, in the order of its regex rules.
\<close>

definition rule_norm :: "string \<times> PathRule \<Rightarrow> string \<times> RuleActions \<times> (string \<times> RuleActions) multiset" where
  "rule_norm r = (fst r, Actions (snd r), mset (RegexRules (snd r)))"

definition config_equiv :: "Config \<Rightarrow> Config \<Rightarrow> bool" where
  "config_equiv c1 c2 \<longleftrightarrow>
     BaseDir c1 = BaseDir c2 \<and> Inputs c1 = Inputs c2 \<and> GlobalDeps c1 = GlobalDeps c2
     \<and> GlobalExclude c1 = GlobalExclude c2 \<and> RootPythonPackages c1 = RootPythonPackages c2
     \<and> mset (map rule_norm (PathRules c1)) = mset (map rule_norm (PathRules c2))"

text \<open>The result of the resolver without its cache.\<close>

definition resolve_pure :: "env \<Rightarrow> Config \<Rightarrow> string \<Rightarrow> string \<Rightarrow> error + string list" where
  "resolve_pure e config base_dir module = map_sum id fst (Resolve e config base_dir Map.empty module)"

definition cache_ok :: "env \<Rightarrow> Config \<Rightarrow> string \<Rightarrow> resolver_cache \<Rightarrow> bool" where
  "cache_ok e config base_dir cache \<longleftrightarrow>
     (\<forall>module paths. cache module = Some paths \<longrightarrow> resolve_pure e config base_dir module = Inr paths)"

text \<open>Two lists that extend two given lists by the same set of elements.\<close>

definition appended_alike :: "string list \<Rightarrow> string list \<Rightarrow> string list \<Rightarrow> string list \<Rightarrow> bool" where
  "appended_alike p1 p2 r1 r2 \<longleftrightarrow> (\<exists>a1 a2. r1 = p1 @ a1 \<and> r2 = p2 @ a2 \<and> set a1 = set a2)"

text \<open>
  What holds of the state of a visit of \<open>file\<close>: the cache agrees with the resolver, and
  the text, once read, is the text of the file.
\<close>

definition visit_inv :: "env \<Rightarrow> Config \<Rightarrow> string \<Rightarrow> string \<Rightarrow> visit_state \<Rightarrow> bool" where
  "visit_inv e c base_dir file st \<longleftrightarrow>
     cache_ok e c base_dir (resolver st)
     \<and> (\<forall>d. file_data st = Some d \<longrightarrow> fs_read e (filepath_Join [base_dir, file]) = Some d)"

definition visit_sim ::
  "env \<Rightarrow> Config \<Rightarrow> string \<Rightarrow> string \<Rightarrow> string list \<Rightarrow> string list \<Rightarrow> visit_state \<Rightarrow> visit_state \<Rightarrow> bool"
where
  "visit_sim e c base_dir file p1 p2 st1 st2 \<longleftrightarrow>
     visit_inv e c base_dir file st1 \<and> visit_inv e c base_dir file st2
     \<and> appended_alike p1 p2 (file_relations st1) (file_relations st2)"

text \<open>
  A loop over rules, and one iteration of the loops over the regex rules and over the
  path rules.
\<close>

fun fold_result :: "('r \<Rightarrow> 's \<Rightarrow> 's result) \<Rightarrow> 'r list \<Rightarrow> 's \<Rightarrow> 's result" where
  "fold_result step [] st = Some (Inr st)"
| "fold_result step (r # rs) st =
     (case step r st of
        None \<Rightarrow> None
      | Some (Inl err) \<Rightarrow> Some (Inl err)
      | Some (Inr st') \<Rightarrow> fold_result step rs st')"

definition regex_rule_step ::
  "env \<Rightarrow> Config \<Rightarrow> string \<Rightarrow> string \<Rightarrow> string \<times> RuleActions \<Rightarrow> visit_state \<Rightarrow> visit_state result"
where
  "regex_rule_step e config base_dir file rule st =
     apply_regex_rules e config base_dir file [rule] st"

definition path_rule_step ::
  "env \<Rightarrow> Config \<Rightarrow> string \<Rightarrow> string \<Rightarrow> string \<times> PathRule \<Rightarrow> visit_state \<Rightarrow> visit_state result"
where
  "path_rule_step e config base_dir file rule st =
     apply_path_rules e config base_dir file [rule] st"

text \<open>
  A step simulates another when, from states that are alike, the success of the first
  gives the success of the second, in states that are alike again. The contribution
  of a step is the set of relations that it appends, seen from the empty state.
\<close>

definition simulates ::
  "env \<Rightarrow> Config \<Rightarrow> string \<Rightarrow> string \<Rightarrow> (visit_state \<Rightarrow> visit_state result)
     \<Rightarrow> (visit_state \<Rightarrow> visit_state result) \<Rightarrow> bool"
where
  "simulates e c base_dir file F1 F2 \<longleftrightarrow>
     (\<forall>p1 p2 st1 st2 st1'.
        visit_sim e c base_dir file p1 p2 st1 st2 \<longrightarrow> F1 st1 = Some (Inr st1') \<longrightarrow>
        (\<exists>st2'. F2 st2 = Some (Inr st2') \<and> visit_sim e c base_dir file p1 p2 st1' st2'))"

definition empty_visit_state :: visit_state where
  "empty_visit_state = \<lparr> file_data = None, file_relations = [], resolver = Map.empty \<rparr>"

definition contribution :: "(visit_state \<Rightarrow> visit_state result) \<Rightarrow> string set option" where
  "contribution F =
     (case F empty_visit_state of
        Some (Inr st') \<Rightarrow> Some (set (file_relations st'))
      | _ \<Rightarrow> None)"

text \<open>Two states of the graph builder that differ at most in the cache of the resolver.\<close>

definition graph_sim :: "env \<Rightarrow> Config \<Rightarrow> string \<Rightarrow> graph_state \<Rightarrow> graph_state \<Rightarrow> bool" where
  "graph_sim e c base_dir st1 st2 \<longleftrightarrow>
     all_files_set st1 = all_files_set st2 \<and> file_relation_map st1 = file_relation_map st2
     \<and> global_deps_items st1 = global_deps_items st2
     \<and> cache_ok e c base_dir (python_mod_resolver st1)
     \<and> cache_ok e c base_dir (python_mod_resolver st2)"


text \<open>The entry of a file in the relation map that the graph builder returns.\<close>

definition relations_for :: "graph_state result \<Rightarrow> string \<Rightarrow> string list option" where
  "relations_for r file =
     (case r of
        Some (Inr st) \<Rightarrow> map_of (relations_of st) file
      | _ \<Rightarrow> None)"

section \<open>A concrete file tree\<close>

text \<open>
  The scenarios of the specification run on a concrete outside world: a file tree given
  as the list of its files (path relative to the base directory, and content), and a
  matcher for the glob patterns that have only literal components, \<open>*\<close>, \<open>?\<close> and
  \<open>**\<close> (no character classes, alternatives or escapes). A \<open>**\<close> component matches
  zero or more path components.
\<close>

fun component_match :: "string \<Rightarrow> string \<Rightarrow> bool" where
  "component_match [] s = (s = [])"
| "component_match (p # ps) [] = (p = CHR ''*'' \<and> component_match ps [])"
| "component_match (p # ps) (c # cs) =
     (if p = CHR ''*'' then component_match ps (c # cs) \<or> component_match (p # ps) cs
      else (p = CHR ''?'' \<or> p = c) \<and> component_match ps cs)"

fun components_match :: "string list \<Rightarrow> string list \<Rightarrow> bool" where
  "components_match [] ss = (ss = [])"
| "components_match (p # ps) [] = (p = ''**'' \<and> components_match ps [])"
| "components_match (p # ps) (s # ss) =
     (if p = ''**'' then components_match ps (s # ss) \<or> components_match (p # ps) ss
      else component_match p s \<and> components_match ps ss)"

definition pattern_match :: "string \<Rightarrow> string \<Rightarrow> bool" where
  "pattern_match pattern name =
     components_match (split_on CHR ''/'' [] pattern) (split_on CHR ''/'' [] name)"

text \<open>The directories of a tree are the proper ancestors of its files.\<close>

fun ancestors :: "string \<Rightarrow> string list" where
  "ancestors [] = []"
| "ancestors (c # s) =
     (if c = CHR ''/'' then [] # map ((#) c) (ancestors s) else map ((#) c) (ancestors s))"

definition tree_dirs :: "(string \<times> string) list \<Rightarrow> string list" where
  "tree_dirs files = remdups (concat (map (ancestors \<circ> fst) files))"

text \<open>The path of \<open>p\<close> relative to the directory \<open>dir\<close>, when \<open>p\<close> lies below it.\<close>

definition relative_to :: "string \<Rightarrow> string \<Rightarrow> string option" where
  "relative_to dir p =
     (if dir = ''.'' then Some p
      else if prefix (dir @ ''/'') p then Some (drop (Suc (length dir)) p)
      else None)"

definition tree_glob :: "(string \<times> string) list \<Rightarrow> bool \<Rightarrow> string \<Rightarrow> string \<Rightarrow> string list option" where
  "tree_glob files files_only dir pattern =
     Some (filter (pattern_match pattern)
             (List.map_filter (relative_to dir)
                (map fst files @ (if files_only then [] else tree_dirs files))))"

definition tree_stat :: "(string \<times> string) list \<Rightarrow> string \<Rightarrow> bool option" where
  "tree_stat files p =
     (if p \<in> set (map fst files) then Some False
      else if p = ''.'' \<or> p \<in> set (tree_dirs files) then Some True
      else None)"

definition tree_env ::
  "(string \<Rightarrow> string \<Rightarrow> string list list option) \<Rightarrow> (string \<times> string) list \<Rightarrow> env" where
  "tree_env regex files =
     \<lparr> fs_glob = tree_glob files,
       glob_match = (\<lambda>pattern name. Some (pattern_match pattern name)),
       fs_read = map_of files,
       fs_stat = tree_stat files,
       regex_find_all = regex \<rparr>"

text \<open>A configuration with nothing in it, to be updated field by field.\<close>

definition empty_config :: Config where
  "empty_config =
     \<lparr> BaseDir = ''.'', Inputs = [], GlobalDeps = [], GlobalExclude = [],
       RootPythonPackages = [], PathRules = [] \<rparr>"

definition no_actions :: RuleActions where
  "no_actions =
     \<lparr> Visit = [], VisitSiblings = [], VisitGrandSiblings = [],
       VisitImportedPythonModules = False, VisitPythonAllSubmodulesFor = [], Exclude = [] \<rparr>"

definition no_regex :: "string \<Rightarrow> string \<Rightarrow> string list list option" where
  "no_regex pattern text = Some []"



definition resolver_config :: Config where
  "resolver_config = empty_config\<lparr>RootPythonPackages := [''pkg'']\<rparr>"

section \<open>Scenarios\<close>

text \<open>
  The end-to-end scenario of the specification: the rule of the test files, the generic
  rule of the Python files, and a tree with \<open>conftest.py\<close> at its root.
\<close>

definition scenario_tree :: "(string \<times> string) list" where
  "scenario_tree =
     [(''tests/test_foo.py'', ''import pkg.db'' @ [CHR 0x0A]),
      (''pkg/db.py'', []), (''pkg/__init__.py'', []),
      (''conftest.py'', []), (''poetry.lock'', [])]"

definition scenario_config :: Config where
  "scenario_config =
     \<lparr> BaseDir = ''.'', Inputs = [''tests/**/test_*.py''], GlobalDeps = [''poetry.lock''],
       GlobalExclude = [], RootPythonPackages = [''pkg''],
       PathRules =
         [(''tests/**/test_*.py'',
           \<lparr> Actions = no_actions\<lparr>VisitGrandSiblings := [''conftest.py'', ''__init__.py'']\<rparr>,
             RegexRules = [] \<rparr>),
          (''**/*.py'',
           \<lparr> Actions = no_actions\<lparr>VisitImportedPythonModules := True,
                                   VisitGrandSiblings := [''__init__.py'']\<rparr>,
             RegexRules = [] \<rparr>)] \<rparr>"

definition scenario_env :: env where
  "scenario_env = tree_env no_regex scenario_tree"


text \<open>
  A run that writes the relations, on a tree without test files, and a hash function for
  the runs that do not hash.
\<close>

definition relations_args :: Args where
  "relations_args =
     \<lparr> ConfigPath = ''repo_dagger.yaml'', InputFiles = [[]], PrintDepStats = False,
       PrintRevDepStats = False, OutDepHashes = [], OutRelations = ''relations.json'',
       OutRecursiveDeps = [], OutRecursiveDepsFor = [], HashSalt = [] \<rparr>"



text \<open>Two excluded input files and a list of global dependencies that names a file twice.\<close>

definition excluded_tree :: "(string \<times> string) list" where
  "excluded_tree = [(''x1'', []), (''x2'', []), (''a'', [])]"

definition excluded_config :: Config where
  "excluded_config =
     empty_config\<lparr>Inputs := [''x*''], GlobalDeps := [''a'', ''a''], GlobalExclude := [''x*'']\<rparr>"

text \<open>A global dependency with a rooted path, and a rule that matches it.\<close>

definition rooted_tree :: "(string \<times> string) list" where
  "rooted_tree = [(''a.py'', []), (''x.py'', [])]"

definition excluded_env :: env where
  "excluded_env = tree_env no_regex excluded_tree"

definition rooted_env :: env where
  "rooted_env = tree_env no_regex rooted_tree"

definition rooted_config :: Config where
  "rooted_config =
     empty_config\<lparr>Inputs := [''a.py''], GlobalDeps := [''/x.py''],
       PathRules := [(''/x.py'', \<lparr> Actions = no_actions, RegexRules = [] \<rparr>)]\<rparr>"

text \<open>
  A second run of the scenario: the tree enumerated in the reverse order, the path rules
  in the reverse order, and the tasks completing in the reverse order; with both outputs
  asked for, and a small function in the place of the hash function.
\<close>

definition toy_sha256 :: "string \<Rightarrow> string" where
  "toy_sha256 bs = take 2 (rev bs)"

definition reversed_env :: env where
  "reversed_env = tree_env no_regex (rev scenario_tree)"

definition reversed_config :: Config where
  "reversed_config = scenario_config\<lparr>PathRules := rev (PathRules scenario_config)\<rparr>"

definition hashes_args :: Args where
  "hashes_args = relations_args\<lparr>OutDepHashes := ''dep_hashes.json'', HashSalt := ''s''\<rparr>"

definition scenario_outputs :: outputs where
  "scenario_outputs =
     \<lparr> relations_json =
         Some [(''pkg/__init__.py'', [''pkg/__init__.py'', ''poetry.lock'']),
               (''pkg/db.py'', [''pkg/__init__.py'', ''poetry.lock'']),
               (''poetry.lock'', [''poetry.lock'']),
               (''tests/test_foo.py'', [''pkg/__init__.py'', ''pkg/db.py'', ''poetry.lock''])],
       dep_hashes_json = Some [(''tests/test_foo.py'', ''620a'')],
       recursive_deps_json = None \<rparr>"

text \<open>Two files that relate each other.\<close>

definition two_cycle :: "(string \<times> string list) list" where
  "two_cycle = [(''a.py'', [''b.py'']), (''b.py'', [''a.py''])]"

section \<open>Properties of the module resolver\<close>







text \<open>
  Claim C4. A module name that begins with a dot and lies under no root package is not
  rejected: the filter on the root packages returns first, with the empty result, which is
  also cached. The panic for relative imports is reached only by a name that passes the
  filter.
\<close>

theorem Resolve_relative_import_outside_roots:
  "Resolve e resolver_config base_dir Map.empty ''.foo'' = Inr ([], [''.foo'' \<mapsto> []])"
  by (subst Resolve.simps)
     (simp add: allowed_module_def resolver_config_def empty_config_def HasPrefix_def)




section \<open>The end-to-end scenario\<close>



section \<open>No input files\<close>




section \<open>Excluded files and the global dependencies\<close>

text \<open>
  Claim C10 at a list of global dependencies that names \<open>a\<close> twice, with the excluded
  input files \<open>x1\<close> and \<open>x2\<close>: both match \<open>global_exclude\<close>, and their entries in the
  relation map are the list of the empty name, and the list of the empty name and
  \<open>a\<close>; the sorted list of the global dependencies without duplicates is the list of
  \<open>a\<close> alone.
\<close>

theorem excluded_files_shared_global_deps:
  "glob_match excluded_env ''x*'' ''x1'' = Some True
   \<and> glob_match excluded_env ''x*'' ''x2'' = Some True
   \<and> relations_for (VisitRecursively excluded_env excluded_config ''.'' [''x1'', ''x2'']) ''x1''
     = Some [[]]
   \<and> relations_for (VisitRecursively excluded_env excluded_config ''.'' [''x1'', ''x2'']) ''x2''
     = Some [[], ''a'']"
  by code_simp

section \<open>A walk that does not end\<close>

text \<open>
  The walk over the grand siblings of a file directly below the root directory \<open>/\<close> does
  not return: \<open>filepath.Dir\<close> of \<open>/\<close> is \<open>/\<close>, never \<open>.\<close>.
\<close>

lemma rooted_walk_never_returns:
  "grand_siblings_loop e base_dir [] ''/'' rels = None"
proof -
  have dir: "filepath_Dir ''/'' = ''/''"
    by code_simp
  have key: "\<not> (v = [] \<and> p = ''/'')" if h: "grand_siblings_loop e b v p r = Some y" for e b v p r y
  proof (rule grand_siblings_loop.raw_induct
      [where P = "\<lambda>e b v p r y. \<not> (v = [] \<and> p = ''/'')", OF _ h], goal_cases)
    case (1 f e b v p r y)
    show ?case
    proof
      assume "v = [] \<and> p = ''/''"
      with "1"(2) dir have "f e b [] ''/'' r = Some y"
        by simp
      from "1"(1) [OF this] show False
        by simp
    qed
  qed
  show ?thesis
  proof (cases "grand_siblings_loop e base_dir [] ''/'' rels")
    case None
    then show ?thesis .
  next
    case (Some y)
    from key [OF Some] show ?thesis by simp
  qed
qed

lemma rooted_visitFile: "visitFile rooted_env rooted_config ''.'' ''/x.py'' rels cache = None"
proof -
  have m: "glob_match rooted_env ''/x.py'' ''/x.py'' = Some True"
    by code_simp
  have d: "filepath_Dir ''/x.py'' = ''/''"
    by code_simp
  show ?thesis
    by (simp add: visitFile_def rooted_config_def empty_config_def m d applyActions_def
        no_actions_def applyOnTemplates_def rooted_walk_never_returns)
qed

text \<open>
  Claim C9 at a configuration whose global dependency is the rooted path \<open>/x.py\<close>, with a
  path rule that matches it: the only files ever related are \<open>a.py\<close> and \<open>/x.py\<close>, and
  the graph builder does not return.
\<close>

theorem rooted_global_dep_never_returns:
  "VisitRecursively rooted_env rooted_config ''.'' [''a.py''] = None"
proof -
  have m: "glob_match rooted_env ''/x.py'' ''a.py'' = Some False"
    by code_simp
  have wave1:
    "visit_input_files rooted_env rooted_config ''.'' [''a.py'']
       \<lparr> all_files_set = {}, file_relation_map = [],
         global_deps_items = [''/x.py''], python_mod_resolver = Map.empty \<rparr> []
     = Some (Inr (\<lparr> all_files_set = {''a.py''}, file_relation_map = [(''a.py'', Shared 1)],
                     global_deps_items = [''/x.py''], python_mod_resolver = Map.empty \<rparr>,
                  [''/x.py'']))"
    by (simp add: visitFile_def rooted_config_def empty_config_def m save_relations_def Let_def)
  have gd: "GlobalDeps rooted_config = [''/x.py'']"
    by (simp add: rooted_config_def empty_config_def)
  show ?thesis
    unfolding VisitRecursively_def gd
    apply (subst visit_waves.simps)
    apply (simp only: wave1)
    apply simp
    apply (subst visit_waves.simps)
    apply (simp add: rooted_visitFile)
    done
qed

section \<open>The dependency hash\<close>



section \<open>The closure\<close>

lemma buildDepList_Nil: "buildDepList m [] st = Some st"
  by (subst buildDepList.simps) simp

lemma buildDepList_visited:
  "file \<in> vis \<Longrightarrow> buildDepList m (file # rest) (vis, dl) = buildDepList m rest (vis, dl)"
  by (subst buildDepList.simps) simp

lemma buildDepList_fresh:
  "file \<notin> vis \<Longrightarrow>
   buildDepList m (file # rest) (vis, dl)
     = Option.bind (buildDepList m (related m file) (insert file vis, dl))
         (\<lambda>st'. buildDepList m rest (fst st', snd st' @ [file]))"
  by (subst buildDepList.simps) simp

lemma buildDepList_correct:
  assumes fin: "finite U" and closed: "\<And>f. set (related m f) \<subseteq> U"
  shows "set files \<subseteq> U \<Longrightarrow> card (U - vis) \<le> n \<Longrightarrow>
     \<exists>new. buildDepList m files (vis, dl) = Some (vis \<union> set new, dl @ new)
         \<and> distinct new \<and> set new \<inter> vis = {} \<and> set files \<subseteq> vis \<union> set new
         \<and> (\<forall>x \<in> set new. set (related m x) \<subseteq> vis \<union> set new)
         \<and> set new \<subseteq> (relation_edges m)\<^sup>* `` set files"
proof (induction n arbitrary: files vis dl rule: less_induct)
  case (less n)
  from less.prems show ?case
  proof (induction files arbitrary: vis dl)
    case Nil
    have "buildDepList m [] (vis, dl) = Some (vis \<union> set [], dl @ [])"
      by (simp add: buildDepList_Nil)
    then show ?case
      by (intro exI [of _ "[]"]) simp
  next
    case (Cons f rest)
    show ?case
    proof (cases "f \<in> vis")
      case True
      from Cons.prems have "set rest \<subseteq> U" by simp
      from Cons.IH [OF this Cons.prems(2)] obtain new where
        run: "buildDepList m rest (vis, dl) = Some (vis \<union> set new, dl @ new)"
        and d: "distinct new" and disj: "set new \<inter> vis = {}"
        and cover: "set rest \<subseteq> vis \<union> set new"
        and cl: "\<forall>x \<in> set new. set (related m x) \<subseteq> vis \<union> set new"
        and reach: "set new \<subseteq> (relation_edges m)\<^sup>* `` set rest"
        by blast
      have "(relation_edges m)\<^sup>* `` set rest \<subseteq> (relation_edges m)\<^sup>* `` set (f # rest)"
        by auto
      with reach have reach': "set new \<subseteq> (relation_edges m)\<^sup>* `` set (f # rest)"
        by (rule subset_trans)
      from True cover have cover': "set (f # rest) \<subseteq> vis \<union> set new"
        by auto
      from run True have "buildDepList m (f # rest) (vis, dl) = Some (vis \<union> set new, dl @ new)"
        by (simp add: buildDepList_visited)
      with d disj cover' cl reach' show ?thesis
        by blast
    next
      case False
      from Cons.prems have fU: "f \<in> U" and restU: "set rest \<subseteq> U" by simp_all
      from fU False fin have "card (U - insert f vis) < card (U - vis)"
        by (intro psubset_card_mono) auto
      with Cons.prems(2) have smaller: "card (U - insert f vis) < n"
        by simp
      have "\<exists>new. buildDepList m (related m f) (insert f vis, dl)
                  = Some (insert f vis \<union> set new, dl @ new)
              \<and> distinct new \<and> set new \<inter> insert f vis = {}
              \<and> set (related m f) \<subseteq> insert f vis \<union> set new
              \<and> (\<forall>x \<in> set new. set (related m x) \<subseteq> insert f vis \<union> set new)
              \<and> set new \<subseteq> (relation_edges m)\<^sup>* `` set (related m f)"
        by (rule less.IH [OF smaller closed order_refl])
      then obtain new1 where
        run1: "buildDepList m (related m f) (insert f vis, dl)
                 = Some (insert f vis \<union> set new1, dl @ new1)"
        and d1: "distinct new1" and disj1: "set new1 \<inter> insert f vis = {}"
        and cover1: "set (related m f) \<subseteq> insert f vis \<union> set new1"
        and cl1: "\<forall>x \<in> set new1. set (related m x) \<subseteq> insert f vis \<union> set new1"
        and reach1: "set new1 \<subseteq> (relation_edges m)\<^sup>* `` set (related m f)"
        by blast
      let ?vis2 = "insert f vis \<union> set new1"
      have "U - ?vis2 \<subseteq> U - vis" by auto
      with fin have "card (U - ?vis2) \<le> card (U - vis)"
        by (intro card_mono) auto
      with Cons.prems(2) have bound2: "card (U - ?vis2) \<le> n"
        by simp
      have "\<exists>new. buildDepList m rest (?vis2, dl @ new1 @ [f])
                  = Some (?vis2 \<union> set new, (dl @ new1 @ [f]) @ new)
              \<and> distinct new \<and> set new \<inter> ?vis2 = {}
              \<and> set rest \<subseteq> ?vis2 \<union> set new
              \<and> (\<forall>x \<in> set new. set (related m x) \<subseteq> ?vis2 \<union> set new)
              \<and> set new \<subseteq> (relation_edges m)\<^sup>* `` set rest"
        by (rule Cons.IH [OF restU bound2])
      then obtain new2 where
        run2: "buildDepList m rest (?vis2, dl @ new1 @ [f])
                 = Some (?vis2 \<union> set new2, (dl @ new1 @ [f]) @ new2)"
        and d2: "distinct new2" and disj2: "set new2 \<inter> ?vis2 = {}"
        and cover2: "set rest \<subseteq> ?vis2 \<union> set new2"
        and cl2: "\<forall>x \<in> set new2. set (related m x) \<subseteq> ?vis2 \<union> set new2"
        and reach2: "set new2 \<subseteq> (relation_edges m)\<^sup>* `` set rest"
        by blast
      let ?new = "new1 @ [f] @ new2"
      have run: "buildDepList m (f # rest) (vis, dl) = Some (vis \<union> set ?new, dl @ ?new)"
      proof -
        have eq: "?vis2 \<union> set new2 = vis \<union> set ?new" by auto
        from False run1 run2 show ?thesis
          by (simp add: buildDepList_fresh Un_assoc)
      qed
      have d: "distinct ?new"
        using d1 d2 disj1 disj2 by auto
      have disj: "set ?new \<inter> vis = {}"
        using disj1 disj2 False by auto
      have cover: "set (f # rest) \<subseteq> vis \<union> set ?new"
        using cover2 by auto
      have cl: "\<forall>x \<in> set ?new. set (related m x) \<subseteq> vis \<union> set ?new"
      proof
        fix x assume "x \<in> set ?new"
        then consider "x \<in> set new1" | "x = f" | "x \<in> set new2" by auto
        then show "set (related m x) \<subseteq> vis \<union> set ?new"
        proof cases
          case 1
          with cl1 have "set (related m x) \<subseteq> insert f vis \<union> set new1" by blast
          then show ?thesis by auto
        next
          case 2
          with cover1 show ?thesis by auto
        next
          case 3
          with cl2 have "set (related m x) \<subseteq> ?vis2 \<union> set new2" by blast
          then show ?thesis by auto
        qed
      qed
      have step: "(relation_edges m)\<^sup>* `` set (related m f) \<subseteq> (relation_edges m)\<^sup>* `` {f}"
      proof
        fix y assume "y \<in> (relation_edges m)\<^sup>* `` set (related m f)"
        then obtain x where x: "x \<in> set (related m f)" and xy: "(x, y) \<in> (relation_edges m)\<^sup>*"
          by auto
        from x have "(f, x) \<in> relation_edges m"
          by (simp add: relation_edges_def)
        from this xy have "(f, y) \<in> (relation_edges m)\<^sup>*"
          by (rule converse_rtrancl_into_rtrancl)
        then show "y \<in> (relation_edges m)\<^sup>* `` {f}" by auto
      qed
      have reach: "set ?new \<subseteq> (relation_edges m)\<^sup>* `` set (f # rest)"
      proof -
        have a: "set new1 \<subseteq> (relation_edges m)\<^sup>* `` set (f # rest)"
          using reach1 step by auto
        have b: "f \<in> (relation_edges m)\<^sup>* `` set (f # rest)"
          by auto
        have c: "set new2 \<subseteq> (relation_edges m)\<^sup>* `` set (f # rest)"
          using reach2 by auto
        from a b c show ?thesis by auto
      qed
      from run d disj cover cl reach show ?thesis
        by blast
    qed
  qed
qed

lemma related_in_values:
  "set (related m f) \<subseteq> insert file (set (map fst m) \<union> \<Union> (set ` set (map snd m)))"
proof (cases "map_of m f")
  case None
  then show ?thesis by (simp add: related_def)
next
  case (Some rels)
  then have "(f, rels) \<in> set m" by (rule map_of_SomeD)
  then have "rels \<in> set (map snd m)" by force
  with Some show ?thesis by (auto simp: related_def)
qed

text \<open>
  Claim C6. For every relation map and every file, \<open>BuildFullDepList\<close> returns, and what
  it returns is sorted, has no duplicates, and holds exactly the files reachable from
  the file over the relation map, the file itself included.
\<close>

theorem BuildFullDepList_closure:
  "\<exists>dep_list. BuildFullDepList m file = Some dep_list
     \<and> sorted dep_list \<and> distinct dep_list \<and> set dep_list = reachable_files m file"
proof -
  let ?U = "insert file (set (map fst m) \<union> \<Union> (set ` set (map snd m)))"
  have fin: "finite ?U" by simp
  have closed: "set (related m f) \<subseteq> ?U" for f
    by (rule related_in_values)
  have "set [file] \<subseteq> ?U" by simp
  from buildDepList_correct [OF fin closed this order_refl, of "{}" "[]"]
  obtain new where
    run: "buildDepList m [file] ({}, []) = Some (set new, new)"
    and d: "distinct new" and cover: "file \<in> set new"
    and cl: "\<forall>x \<in> set new. set (related m x) \<subseteq> set new"
    and reach: "set new \<subseteq> (relation_edges m)\<^sup>* `` {file}"
    by auto
  have "y \<in> set new" if "(file, y) \<in> (relation_edges m)\<^sup>*" for y
    using that
  proof (induction rule: rtrancl_induct)
    case base
    from cover show ?case .
  next
    case (step y z)
    from step.hyps(2) have "z \<in> set (related m y)"
      by (simp add: relation_edges_def)
    with cl step.IH show ?case by blast
  qed
  with reach have "set new = reachable_files m file"
    by (auto simp: reachable_files_def)
  with run d show ?thesis
    by (simp add: BuildFullDepList_def)
qed

text \<open>Two files that relate each other: each closure holds both files once.\<close>

theorem BuildFullDepList_closure_witness:
  "BuildFullDepList two_cycle ''a.py'' = Some [''a.py'', ''b.py'']
   \<and> BuildFullDepList two_cycle ''b.py'' = Some [''a.py'', ''b.py'']
   \<and> reachable_files two_cycle ''a.py'' = {''a.py'', ''b.py''}"
proof -
  have a: "BuildFullDepList two_cycle ''a.py'' = Some [''a.py'', ''b.py'']"
    by code_simp
  have b: "BuildFullDepList two_cycle ''b.py'' = Some [''a.py'', ''b.py'']"
    by code_simp
  from BuildFullDepList_closure [of two_cycle "''a.py''"] a
  have "reachable_files two_cycle ''a.py'' = {''a.py'', ''b.py''}"
    by auto
  with a b show ?thesis by simp
qed

section \<open>Independence of the order of enumeration\<close>

lemma appended_alike_refl: "appended_alike p1 p2 p1 p2"
  by (simp add: appended_alike_def)

lemma appended_alike_append:
  assumes "appended_alike p1 p2 r1 r2" and "set x = set y"
  shows "appended_alike p1 p2 (r1 @ x) (r2 @ y)"
proof -
  from assms(1) obtain a1 a2 where "r1 = p1 @ a1" "r2 = p2 @ a2" "set a1 = set a2"
    by (auto simp: appended_alike_def)
  with assms(2) have "r1 @ x = p1 @ (a1 @ x) \<and> r2 @ y = p2 @ (a2 @ y) \<and> set (a1 @ x) = set (a2 @ y)"
    by simp
  then show ?thesis
    unfolding appended_alike_def by blast
qed

lemma env_equiv_glob:
  assumes "env_equiv e1 e2" and "fs_glob e1 fo dir pat = Some xs"
  shows "\<exists>ys. fs_glob e2 fo dir pat = Some ys \<and> set ys = set xs"
proof -
  from assms(1) have "rel_option (\<lambda>xs ys. mset xs = mset ys) (fs_glob e1 fo dir pat) (fs_glob e2 fo dir pat)"
    by (simp add: env_equiv_def)
  with assms(2) obtain ys where ys: "fs_glob e2 fo dir pat = Some ys" and m: "mset xs = mset ys"
    by (cases "fs_glob e2 fo dir pat") auto
  from m have "set xs = set ys"
    by (rule mset_eq_setD)
  with ys show ?thesis by simp
qed

lemma Resolve_cong:
  "fs_stat e1 = fs_stat e2 \<Longrightarrow> RootPythonPackages c1 = RootPythonPackages c2 \<Longrightarrow>
   Resolve e1 c1 base_dir cache module = Resolve e2 c2 base_dir cache module"
proof (induction e1 c1 base_dir cache module rule: Resolve.induct)
  case (1 e1 c1 base_dir cache module)
  have a: "allowed_module c1 module = allowed_module c2 module"
    using "1.prems"(2) by (simp add: allowed_module_def)
  have c: "candidate_paths e1 base_dir module = candidate_paths e2 base_dir module"
    using "1.prems"(1) by (simp add: candidate_paths_def stat_ok_def)
  have v: "visit_parent e1 base_dir module = visit_parent e2 base_dir module"
    using "1.prems"(1) by (simp add: visit_parent_def stat_ok_def stat_is_dir_def)
  have r: "Resolve e1 c1 base_dir cache (take idx module) = Resolve e2 c2 base_dir cache (take idx module)"
    if "cache module = None" "allowed_module c1 module" "\<not> HasPrefix module ''.''"
       "visit_parent e1 base_dir module" "LastIndex module CHR ''.'' = Some idx" for idx
    using "1.IH" [OF that(1) _ that(3) refl that(4) that(5) "1.prems"] that(2) by simp
  show ?case
    apply (simp only: Resolve.simps [of e1 c1 base_dir cache module]
        Resolve.simps [of e2 c2 base_dir cache module])
    apply (simp add: a c v Let_def split: option.splits)
    using r a v apply auto
    done
qed

lemma resolve_pure_cong:
  "fs_stat e1 = fs_stat e2 \<Longrightarrow> RootPythonPackages c1 = RootPythonPackages c2 \<Longrightarrow>
   resolve_pure e1 c1 base_dir = resolve_pure e2 c2 base_dir"
  by (rule ext) (simp add: resolve_pure_def Resolve_cong [of e1 e2 c1 c2])

lemma cache_ok_cong:
  "fs_stat e1 = fs_stat e2 \<Longrightarrow> RootPythonPackages c1 = RootPythonPackages c2 \<Longrightarrow>
   cache_ok e1 c1 base_dir = cache_ok e2 c2 base_dir"
  by (rule ext) (simp add: cache_ok_def resolve_pure_cong [of e1 e2 c1 c2])

lemma cache_ok_empty: "cache_ok e c base_dir Map.empty"
  by (simp add: cache_ok_def)

text \<open>The resolver without cache, unfolded once.\<close>

lemma resolve_pure_unfold:
  "resolve_pure e c base_dir module =
     (if \<not> allowed_module c module then Inr []
      else if HasPrefix module ''.'' then Inl (RelativeImportPanic module)
      else if visit_parent e base_dir module then
        (case LastIndex module CHR ''.'' of
           None \<Rightarrow> Inr (candidate_paths e base_dir module)
         | Some idx \<Rightarrow>
             (case resolve_pure e c base_dir (take idx module) of
                Inl err \<Rightarrow> Inl err
              | Inr sub_paths \<Rightarrow> Inr (candidate_paths e base_dir module @ sub_paths)))
      else Inr (candidate_paths e base_dir module))"
  unfolding resolve_pure_def
  apply (simp only: Resolve.simps [of e c base_dir Map.empty module])
  apply (simp add: Let_def split: option.splits sum.splits)
  done

lemma Resolve_transparent:
  "cache_ok e c base_dir cache \<Longrightarrow>
   (case Resolve e c base_dir cache module of
      Inl err \<Rightarrow> resolve_pure e c base_dir module = Inl err
    | Inr (paths, cache') \<Rightarrow>
        resolve_pure e c base_dir module = Inr paths \<and> cache_ok e c base_dir cache')"
proof (induction e c base_dir cache module rule: Resolve.induct)
  case (1 e c base_dir cache module)
  show ?case
  proof (cases "cache module")
    case (Some cached)
    with "1.prems" show ?thesis
      by (simp add: Resolve.simps [of e c base_dir cache module] cache_ok_def)
  next
    case None
    note miss = None
    have upd: "cache_ok e c base_dir (cache'(module \<mapsto> paths))"
      if "cache_ok e c base_dir cache'" "resolve_pure e c base_dir module = Inr paths"
      for cache' paths
      using that by (simp add: cache_ok_def)
    show ?thesis
    proof (cases "allowed_module c module \<and> \<not> HasPrefix module ''.''
                   \<and> visit_parent e base_dir module")
      case False
      have pure: "resolve_pure e c base_dir module =
          (if \<not> allowed_module c module then Inr []
           else if HasPrefix module ''.'' then Inl (RelativeImportPanic module)
           else Inr (candidate_paths e base_dir module))"
        using False by (subst resolve_pure_unfold) auto
      from False miss "1.prems" upd pure show ?thesis
        by (simp add: Resolve.simps [of e c base_dir cache module] Let_def) auto
    next
      case True
      show ?thesis
      proof (cases "LastIndex module CHR ''.''")
        case None
        have pure: "resolve_pure e c base_dir module = Inr (candidate_paths e base_dir module)"
          using True None by (subst resolve_pure_unfold) simp
        from True miss None "1.prems" upd pure show ?thesis
          by (simp add: Resolve.simps [of e c base_dir cache module] Let_def)
      next
        case (Some idx)
        have IH: "case Resolve e c base_dir cache (take idx module) of
            Inl err \<Rightarrow> resolve_pure e c base_dir (take idx module) = Inl err
          | Inr (paths, cache') \<Rightarrow>
              resolve_pure e c base_dir (take idx module) = Inr paths
              \<and> cache_ok e c base_dir cache'"
          using "1.IH" [OF miss _ _ refl _ Some "1.prems"] True by simp
        have pure: "resolve_pure e c base_dir module =
            (case resolve_pure e c base_dir (take idx module) of
               Inl err \<Rightarrow> Inl err
             | Inr sub_paths \<Rightarrow> Inr (candidate_paths e base_dir module @ sub_paths))"
          using True Some by (subst resolve_pure_unfold) simp
        show ?thesis
        proof (cases "Resolve e c base_dir cache (take idx module)")
          case (Inl err)
          with IH pure True miss Some show ?thesis
            by (simp add: Resolve.simps [of e c base_dir cache module] Let_def)
        next
          case (Inr r)
          obtain sub cache' where r: "r = (sub, cache')" by (cases r)
          with IH Inr have sub: "resolve_pure e c base_dir (take idx module) = Inr sub"
            and ok: "cache_ok e c base_dir cache'"
            by simp_all
          from sub pure have "resolve_pure e c base_dir module
              = Inr (candidate_paths e base_dir module @ sub)"
            by simp
          with upd [OF ok this] Inr r True miss Some show ?thesis
            by (simp add: Resolve.simps [of e c base_dir cache module] Let_def)
        qed
      qed
    qed
  qed
qed

lemma glob_append_sim:
  assumes eq: "env_equiv e1 e2"
  shows "appended_alike p1 p2 r1 r2 \<Longrightarrow> glob_append e1 dir anchor visits r1 = Inr r1' \<Longrightarrow>
     \<exists>r2'. glob_append e2 dir anchor visits r2 = Inr r2' \<and> appended_alike p1 p2 r1' r2'"
proof (induction visits arbitrary: r1 r2)
  case Nil
  then show ?case by simp
next
  case (Cons visit visits)
  from Cons.prems(2) obtain chunk1 where g1: "fs_glob e1 True dir visit = Some chunk1"
    and rest: "glob_append e1 dir anchor visits (r1 @ map anchor chunk1) = Inr r1'"
    by (cases "fs_glob e1 True dir visit") auto
  from env_equiv_glob [OF eq g1] obtain chunk2 where g2: "fs_glob e2 True dir visit = Some chunk2"
    and "set chunk2 = set chunk1"
    by blast
  then have "set (map anchor chunk1) = set (map anchor chunk2)"
    by simp
  with Cons.prems(1) have "appended_alike p1 p2 (r1 @ map anchor chunk1) (r2 @ map anchor chunk2)"
    by (rule appended_alike_append)
  from Cons.IH [OF this rest] g2 show ?case
    by simp
qed

lemma grand_siblings_loop_sim:
  assumes eq: "env_equiv e1 e2"
    and run: "grand_siblings_loop e1 base_dir visits path_iter r1 = Some (Inr r1')"
    and alike: "appended_alike p1 p2 r1 r2"
  shows "\<exists>r2'. grand_siblings_loop e2 base_dir visits path_iter r2 = Some (Inr r2')
           \<and> appended_alike p1 p2 r1' r2'"
proof -
  have "e = e1 \<longrightarrow> (\<forall>r2 r1'. y = Inr r1' \<longrightarrow> appended_alike p1 p2 r r2 \<longrightarrow>
          (\<exists>r2'. grand_siblings_loop e2 b v p r2 = Some (Inr r2') \<and> appended_alike p1 p2 r1' r2'))"
    if h: "grand_siblings_loop e b v p r = Some y" for e b v p r y
  proof (rule grand_siblings_loop.raw_induct
      [where P = "\<lambda>e b v p r y. e = e1 \<longrightarrow> (\<forall>r2 r1'. y = Inr r1' \<longrightarrow> appended_alike p1 p2 r r2 \<longrightarrow>
          (\<exists>r2'. grand_siblings_loop e2 b v p r2 = Some (Inr r2') \<and> appended_alike p1 p2 r1' r2'))",
        OF _ h], goal_cases)
    case (1 f e b v p r y)
    show ?case
    proof (intro impI allI)
      fix r2 r1'
      assume e: "e = e1" and y: "y = Inr r1'" and al: "appended_alike p1 p2 r r2"
      show "\<exists>r2'. grand_siblings_loop e2 b v p r2 = Some (Inr r2') \<and> appended_alike p1 p2 r1' r2'"
      proof (cases "p = ''.''")
        case True
        with "1"(2) y al show ?thesis
          by (subst grand_siblings_loop.simps) simp
      next
        case False
        let ?dir = "filepath_Join [b, p]"
        let ?anchor = "\<lambda>visit_file. filepath_Join [p, visit_file]"
        from "1"(2) False e y obtain ra where
          g1: "glob_append e1 ?dir ?anchor v r = Inr ra"
          and rest: "f e1 b v (filepath_Dir p) ra = Some (Inr r1')"
          by (cases "glob_append e1 ?dir ?anchor v r") auto
        from glob_append_sim [OF eq al g1] obtain rb where
          g2: "glob_append e2 ?dir ?anchor v r2 = Inr rb" and al': "appended_alike p1 p2 ra rb"
          by blast
        from "1"(1) [OF rest] al' obtain r2' where
          "grand_siblings_loop e2 b v (filepath_Dir p) rb = Some (Inr r2')"
          "appended_alike p1 p2 r1' r2'"
          by blast
        with False g2 show ?thesis
          by (subst grand_siblings_loop.simps) simp
      qed
    qed
  qed
  from this [OF run] alike show ?thesis
    by blast
qed

lemma visit_all_submodules_sim:
  assumes eq: "env_equiv e1 e2" and roots: "RootPythonPackages c1 = RootPythonPackages c2"
  shows "appended_alike p1 p2 r1 r2 \<Longrightarrow>
     visit_all_submodules e1 c1 base_dir idents mods r1 = Inr r1' \<Longrightarrow>
     \<exists>r2'. visit_all_submodules e2 c2 base_dir idents mods r2 = Inr r2'
          \<and> appended_alike p1 p2 r1' r2'"
proof (induction mods arbitrary: r1 r2)
  case Nil
  then show ?case by simp
next
  case (Cons mod_name mods)
  have a: "allowed_module c1 mod_name = allowed_module c2 mod_name"
    using roots by (simp add: allowed_module_def)
  let ?full = "if allowed_module c1 mod_name then Some mod_name else idents mod_name"
  from Cons.prems(2) obtain full where full: "?full = Some full"
    by (cases ?full) auto
  let ?pat = "ReplaceAll full ''.'' ''/'' @ ''/**/*.py''"
  from Cons.prems(2) full obtain chunk1 where g1: "fs_glob e1 True base_dir ?pat = Some chunk1"
    and rest: "visit_all_submodules e1 c1 base_dir idents mods (r1 @ chunk1) = Inr r1'"
    by (cases "fs_glob e1 True base_dir ?pat") (auto split: if_splits)
  from env_equiv_glob [OF eq g1] obtain chunk2 where g2: "fs_glob e2 True base_dir ?pat = Some chunk2"
    and "set chunk2 = set chunk1"
    by blast
  then have "set chunk1 = set chunk2" by simp
  with Cons.prems(1) have "appended_alike p1 p2 (r1 @ chunk1) (r2 @ chunk2)"
    by (rule appended_alike_append)
  from Cons.IH [OF this rest] obtain r2' where
    "visit_all_submodules e2 c2 base_dir idents mods (r2 @ chunk2) = Inr r2'"
    "appended_alike p1 p2 r1' r2'"
    by blast
  with full g2 a show ?case
    by (auto split: if_splits)
qed

lemma resolve_imports_sim:
  assumes st: "fs_stat e1 = fs_stat e2" and roots: "RootPythonPackages c1 = RootPythonPackages c2"
  shows "appended_alike p1 p2 r1 r2 \<Longrightarrow> cache_ok e1 c1 base_dir cache1 \<Longrightarrow>
     cache_ok e1 c1 base_dir cache2 \<Longrightarrow>
     resolve_imports e1 c1 base_dir mods r1 cache1 = Inr (r1', cache1') \<Longrightarrow>
     \<exists>r2' cache2'. resolve_imports e2 c2 base_dir mods r2 cache2 = Inr (r2', cache2')
          \<and> appended_alike p1 p2 r1' r2'
          \<and> cache_ok e1 c1 base_dir cache1' \<and> cache_ok e1 c1 base_dir cache2'"
proof (induction mods arbitrary: r1 r2 cache1 cache2)
  case Nil
  then show ?case by simp
next
  case (Cons module mods)
  from Cons.prems(4) obtain paths ca where
    res1: "Resolve e1 c1 base_dir cache1 module = Inr (paths, ca)"
    and rest: "resolve_imports e1 c1 base_dir mods (r1 @ paths) ca = Inr (r1', cache1')"
    by (cases "Resolve e1 c1 base_dir cache1 module") auto
  from Resolve_transparent [OF Cons.prems(2), of module] res1
  have pure: "resolve_pure e1 c1 base_dir module = Inr paths" and oka: "cache_ok e1 c1 base_dir ca"
    by simp_all
  have "\<exists>cb. Resolve e1 c1 base_dir cache2 module = Inr (paths, cb) \<and> cache_ok e1 c1 base_dir cb"
    using Resolve_transparent [OF Cons.prems(3), of module] pure
    by (cases "Resolve e1 c1 base_dir cache2 module") auto
  then obtain cb where res2: "Resolve e1 c1 base_dir cache2 module = Inr (paths, cb)"
    and okb: "cache_ok e1 c1 base_dir cb"
    by blast
  from res2 have res2': "Resolve e2 c2 base_dir cache2 module = Inr (paths, cb)"
    by (simp add: Resolve_cong [OF st roots])
  from Cons.prems(1) have "appended_alike p1 p2 (r1 @ paths) (r2 @ paths)"
    by (rule appended_alike_append) simp
  from Cons.IH [OF this oka okb rest] res2' show ?case
    by simp
qed

lemma read_file_data_inv:
  "visit_inv e c base_dir file st \<Longrightarrow>
   read_file_data e base_dir file (file_data st) = fs_read e (filepath_Join [base_dir, file])"
  by (cases "file_data st") (simp_all add: visit_inv_def read_file_data_def)

lemma visit_imported_python_sim:
  assumes eq: "env_equiv e1 e2" and roots: "RootPythonPackages c1 = RootPythonPackages c2"
    and sim: "visit_sim e1 c1 base_dir file p1 p2 st1 st2"
    and run: "visit_imported_python e1 c1 base_dir actions file rr st1 = Inr st1'"
  shows "\<exists>st2'. visit_imported_python e2 c2 base_dir actions file rr st2 = Inr st2'
           \<and> visit_sim e1 c1 base_dir file p1 p2 st1' st2'"
proof (cases "VisitImportedPythonModules actions \<or> VisitPythonAllSubmodulesFor actions \<noteq> []")
  case False
  with run sim show ?thesis
    by (simp add: visit_imported_python_def)
next
  case True
  from eq have st: "fs_stat e1 = fs_stat e2" and rd: "fs_read e1 = fs_read e2"
    by (simp_all add: env_equiv_def)
  from sim have inv1: "visit_inv e1 c1 base_dir file st1" and inv2: "visit_inv e1 c1 base_dir file st2"
    and al: "appended_alike p1 p2 (file_relations st1) (file_relations st2)"
    by (simp_all add: visit_sim_def)
  let ?path = "filepath_Join [base_dir, file]"
  have read1: "read_file_data e1 base_dir file (file_data st1) = fs_read e1 ?path"
    using inv1 by (rule read_file_data_inv)
  have "read_file_data e2 base_dir file (file_data st2)
          = read_file_data e1 base_dir file (file_data st2)"
    by (cases "file_data st2") (simp_all add: read_file_data_def rd)
  also have "\<dots> = fs_read e1 ?path"
    using inv2 by (rule read_file_data_inv)
  finally have read2: "read_file_data e2 base_dir file (file_data st2) = fs_read e1 ?path" .
  from run True read1 obtain data where data: "fs_read e1 ?path = Some data"
    by (cases "fs_read e1 ?path") (auto simp: visit_imported_python_def)
  let ?mods = "applyOnTemplates rr (VisitPythonAllSubmodulesFor actions)"
  from run True read1 data obtain ra where
    sub1: "visit_all_submodules e1 c1 base_dir (pyimports_idents data) ?mods (file_relations st1) = Inr ra"
    by (cases "visit_all_submodules e1 c1 base_dir (pyimports_idents data) ?mods (file_relations st1)")
       (auto simp: visit_imported_python_def)
  from run True read1 data sub1 obtain rels1 cache1 where
    res1: "resolve_imports e1 c1 base_dir (pyimports data) ra (resolver st1) = Inr (rels1, cache1)"
    and st1': "st1' = \<lparr> file_data = Some data, file_relations = rels1, resolver = cache1 \<rparr>"
    by (cases "resolve_imports e1 c1 base_dir (pyimports data) ra (resolver st1)")
       (auto simp: visit_imported_python_def)
  from visit_all_submodules_sim [OF eq roots al sub1] obtain rb where
    sub2: "visit_all_submodules e2 c2 base_dir (pyimports_idents data) ?mods (file_relations st2) = Inr rb"
    and al': "appended_alike p1 p2 ra rb"
    by blast
  from inv1 inv2 have ok1: "cache_ok e1 c1 base_dir (resolver st1)"
    and ok2: "cache_ok e1 c1 base_dir (resolver st2)"
    by (simp_all add: visit_inv_def)
  from resolve_imports_sim [OF st roots al' ok1 ok2 res1] obtain rels2 cache2 where
    res2: "resolve_imports e2 c2 base_dir (pyimports data) rb (resolver st2) = Inr (rels2, cache2)"
    and al'': "appended_alike p1 p2 rels1 rels2"
    and ok1': "cache_ok e1 c1 base_dir cache1" and ok2': "cache_ok e1 c1 base_dir cache2"
    by blast
  let ?st2' = "\<lparr> file_data = Some data, file_relations = rels2, resolver = cache2 \<rparr>"
  from True read2 data sub2 res2
  have "visit_imported_python e2 c2 base_dir actions file rr st2 = Inr ?st2'"
    by (simp add: visit_imported_python_def)
  moreover from st1' al'' ok1' ok2' data
  have "visit_sim e1 c1 base_dir file p1 p2 st1' ?st2'"
    by (simp add: visit_sim_def visit_inv_def)
  ultimately show ?thesis by blast
qed

lemma visit_sim_update:
  "visit_sim e c base_dir file p1 p2 st1 st2 \<Longrightarrow> appended_alike p1 p2 r1 r2 \<Longrightarrow>
   visit_sim e c base_dir file p1 p2 (st1\<lparr>file_relations := r1\<rparr>) (st2\<lparr>file_relations := r2\<rparr>)"
  by (simp add: visit_sim_def visit_inv_def)

lemma applyActions_sim:
  assumes eq: "env_equiv e1 e2" and roots: "RootPythonPackages c1 = RootPythonPackages c2"
    and sim: "visit_sim e1 c1 base_dir file p1 p2 st1 st2"
    and run: "applyActions e1 c1 base_dir actions file rr st1 = Some (Inr st1')"
  shows "\<exists>st2'. applyActions e2 c2 base_dir actions file rr st2 = Some (Inr st2')
           \<and> visit_sim e1 c1 base_dir file p1 p2 st1' st2'"
proof -
  from sim have al: "appended_alike p1 p2 (file_relations st1) (file_relations st2)"
    by (simp add: visit_sim_def)
  let ?v = "applyOnTemplates rr (Visit actions)"
  let ?s = "applyOnTemplates rr (VisitSiblings actions)"
  let ?g = "applyOnTemplates rr (VisitGrandSiblings actions)"
  let ?p = "filepath_Dir file"
  let ?dir = "filepath_Join [base_dir, ?p]"
  let ?anchor = "\<lambda>visit_file. filepath_Join [?p, visit_file]"
  from run obtain ra where a1: "glob_append e1 base_dir (\<lambda>visit_file. visit_file) ?v (file_relations st1) = Inr ra"
    by (cases "glob_append e1 base_dir (\<lambda>visit_file. visit_file) ?v (file_relations st1)")
       (auto simp: applyActions_def)
  from run a1 obtain rb where b1: "glob_append e1 ?dir ?anchor ?s ra = Inr rb"
    by (cases "glob_append e1 ?dir ?anchor ?s ra") (auto simp: applyActions_def Let_def)
  from run a1 b1 obtain rc where c1: "grand_siblings_loop e1 base_dir ?g ?p rb = Some (Inr rc)"
    by (cases "grand_siblings_loop e1 base_dir ?g ?p rb")
       (auto simp: applyActions_def Let_def split: sum.splits)
  from run a1 b1 c1 have d1:
    "visit_imported_python e1 c1 base_dir actions file rr (st1\<lparr>file_relations := rc\<rparr>) = Inr st1'"
    by (simp add: applyActions_def Let_def)
  from glob_append_sim [OF eq al a1] obtain ra2 where
    a2: "glob_append e2 base_dir (\<lambda>visit_file. visit_file) ?v (file_relations st2) = Inr ra2"
    and ala: "appended_alike p1 p2 ra ra2"
    by blast
  from glob_append_sim [OF eq ala b1] obtain rb2 where
    b2: "glob_append e2 ?dir ?anchor ?s ra2 = Inr rb2" and alb: "appended_alike p1 p2 rb rb2"
    by blast
  from grand_siblings_loop_sim [OF eq c1 alb] obtain rc2 where
    c2: "grand_siblings_loop e2 base_dir ?g ?p rb2 = Some (Inr rc2)"
    and alc: "appended_alike p1 p2 rc rc2"
    by blast
  from visit_imported_python_sim [OF eq roots visit_sim_update [OF sim alc] d1] obtain st2' where
    d2: "visit_imported_python e2 c2 base_dir actions file rr (st2\<lparr>file_relations := rc2\<rparr>) = Inr st2'"
    and sim': "visit_sim e1 c1 base_dir file p1 p2 st1' st2'"
    by blast
  from a2 b2 c2 d2 have "applyActions e2 c2 base_dir actions file rr st2 = Some (Inr st2')"
    by (simp add: applyActions_def Let_def)
  with sim' show ?thesis by blast
qed

lemma apply_regex_matches_sim:
  assumes eq: "env_equiv e1 e2" and roots: "RootPythonPackages c1 = RootPythonPackages c2"
  shows "visit_sim e1 c1 base_dir file p1 p2 st1 st2 \<Longrightarrow>
     apply_regex_matches e1 c1 base_dir actions file ms st1 = Some (Inr st1') \<Longrightarrow>
     \<exists>st2'. apply_regex_matches e2 c2 base_dir actions file ms st2 = Some (Inr st2')
          \<and> visit_sim e1 c1 base_dir file p1 p2 st1' st2'"
proof (induction ms arbitrary: st1 st2)
  case Nil
  then show ?case by simp
next
  case (Cons m ms)
  from Cons.prems(2) obtain sa where
    a1: "applyActions e1 c1 base_dir actions file m st1 = Some (Inr sa)"
    and rest: "apply_regex_matches e1 c1 base_dir actions file ms sa = Some (Inr st1')"
    by (cases "applyActions e1 c1 base_dir actions file m st1")
       (auto split: sum.splits)
  from applyActions_sim [OF eq roots Cons.prems(1) a1] obtain sb where
    a2: "applyActions e2 c2 base_dir actions file m st2 = Some (Inr sb)"
    and sim: "visit_sim e1 c1 base_dir file p1 p2 sa sb"
    by blast
  from Cons.IH [OF sim rest] a2 show ?case
    by simp
qed

lemma apply_regex_rules_fold:
  "apply_regex_rules e c base_dir file rules st
     = fold_result (regex_rule_step e c base_dir file) rules st"
proof (induction rules arbitrary: st)
  case Nil
  show ?case by simp
next
  case (Cons rule rules)
  obtain pat acts where rule: "rule = (pat, acts)" by (cases rule)
  show ?case
    unfolding rule
    by (simp add: regex_rule_step_def Cons.IH split: sum.splits option.splits)
qed

lemma apply_path_rules_fold:
  "apply_path_rules e c base_dir file rules st
     = fold_result (path_rule_step e c base_dir file) rules st"
proof (induction rules arbitrary: st)
  case Nil
  show ?case by simp
next
  case (Cons rule rules)
  obtain pat r where rule: "rule = (pat, r)" by (cases rule)
  show ?case
    unfolding rule
    by (simp add: path_rule_step_def Cons.IH split: sum.splits option.splits)
qed

lemma visit_inv_empty: "visit_inv e c base_dir file empty_visit_state"
  by (simp add: visit_inv_def empty_visit_state_def cache_ok_empty)

lemma visit_sim_start:
  "visit_inv e c base_dir file st1 \<Longrightarrow> visit_inv e c base_dir file st2 \<Longrightarrow>
   visit_sim e c base_dir file (file_relations st1) (file_relations st2) st1 st2"
  by (simp add: visit_sim_def appended_alike_refl)

lemma contribution_of_run:
  assumes self: "simulates e c base_dir file F F"
    and inv: "visit_inv e c base_dir file st"
    and run: "F st = Some (Inr st')"
  shows "visit_inv e c base_dir file st'
     \<and> (\<exists>a. file_relations st' = file_relations st @ a \<and> contribution F = Some (set a))"
proof -
  have "visit_sim e c base_dir file (file_relations st) [] st empty_visit_state"
    using visit_sim_start [OF inv visit_inv_empty]
    by (simp add: empty_visit_state_def)
  with self run obtain st0' where run0: "F empty_visit_state = Some (Inr st0')"
    and sim: "visit_sim e c base_dir file (file_relations st) [] st' st0'"
    unfolding simulates_def by blast
  from sim obtain a1 a2 where "file_relations st' = file_relations st @ a1"
    "file_relations st0' = a2" "set a1 = set a2"
    by (auto simp: visit_sim_def appended_alike_def)
  moreover from run0 have "contribution F = Some (set (file_relations st0'))"
    by (simp add: contribution_def)
  moreover from sim have "visit_inv e c base_dir file st'"
    by (simp add: visit_sim_def)
  ultimately show ?thesis by auto
qed

lemma run_of_contribution:
  assumes self: "simulates e c base_dir file F F"
    and inv: "visit_inv e c base_dir file st"
    and con: "contribution F \<noteq> None"
  shows "\<exists>st'. F st = Some (Inr st')"
proof -
  from con obtain st0' where run0: "F empty_visit_state = Some (Inr st0')"
    by (auto simp: contribution_def split: option.splits sum.splits)
  have "visit_sim e c base_dir file [] (file_relations st) empty_visit_state st"
    using visit_sim_start [OF visit_inv_empty inv]
    by (simp add: empty_visit_state_def)
  with self run0 show ?thesis
    unfolding simulates_def by blast
qed

lemma contribution_simulated:
  assumes sim: "simulates e c base_dir file F1 F2"
    and con: "contribution F1 = Some A"
  shows "contribution F2 = Some A"
proof -
  from con obtain s1 where run1: "F1 empty_visit_state = Some (Inr s1)"
    and A: "A = set (file_relations s1)"
    by (auto simp: contribution_def split: option.splits sum.splits)
  have inv0: "visit_inv e c base_dir file empty_visit_state"
    by (rule visit_inv_empty)
  have "visit_sim e c base_dir file [] [] empty_visit_state empty_visit_state"
    using visit_sim_start [OF inv0 inv0]
    by (simp add: empty_visit_state_def)
  with sim run1 obtain s2 where run2: "F2 empty_visit_state = Some (Inr s2)"
    and "visit_sim e c base_dir file [] [] s1 s2"
    unfolding simulates_def by blast
  then have "set (file_relations s1) = set (file_relations s2)"
    by (auto simp: visit_sim_def appended_alike_def)
  with run2 A show ?thesis
    by (simp add: contribution_def)
qed

lemma fold_result_contributions:
  assumes self: "\<And>r. r \<in> set rs \<Longrightarrow> simulates e c base_dir file (step r) (step r)"
  shows "visit_inv e c base_dir file st \<Longrightarrow> fold_result step rs st = Some (Inr st') \<Longrightarrow>
     visit_inv e c base_dir file st'
     \<and> (\<forall>r \<in> set rs. contribution (step r) \<noteq> None)
     \<and> (\<exists>a. file_relations st' = file_relations st @ a
            \<and> set a = \<Union> {A. \<exists>r \<in> set rs. contribution (step r) = Some A})"
  using self
proof (induction rs arbitrary: st)
  case Nil
  then show ?case by simp
next
  case (Cons r rs)
  from Cons.prems(2) obtain sa where a: "step r st = Some (Inr sa)"
    and rest: "fold_result step rs sa = Some (Inr st')"
    by (cases "step r st") (auto split: sum.splits)
  have selfr: "simulates e c base_dir file (step r) (step r)"
    by (rule Cons.prems(3)) simp
  from contribution_of_run [OF selfr Cons.prems(1) a] obtain a1 where
    inva: "visit_inv e c base_dir file sa"
    and ra: "file_relations sa = file_relations st @ a1"
    and ca: "contribution (step r) = Some (set a1)"
    by blast
  have "\<And>r'. r' \<in> set rs \<Longrightarrow> simulates e c base_dir file (step r') (step r')"
    by (rule Cons.prems(3)) simp
  from Cons.IH [OF inva rest this] obtain a2 where
    inv': "visit_inv e c base_dir file st'"
    and all: "\<forall>r \<in> set rs. contribution (step r) \<noteq> None"
    and r2: "file_relations st' = file_relations sa @ a2"
    and s2: "set a2 = \<Union> {A. \<exists>r \<in> set rs. contribution (step r) = Some A}"
    by blast
  have "set (a1 @ a2) = \<Union> {A. \<exists>r' \<in> set (r # rs). contribution (step r') = Some A}"
    using ca s2 by auto
  moreover have "file_relations st' = file_relations st @ (a1 @ a2)"
    using ra r2 by simp
  moreover have "\<forall>r' \<in> set (r # rs). contribution (step r') \<noteq> None"
    using ca all by simp
  ultimately show ?case
    using inv' by blast
qed

lemma fold_result_succeeds:
  assumes self: "\<And>r. r \<in> set rs \<Longrightarrow> simulates e c base_dir file (step r) (step r)"
  shows "visit_inv e c base_dir file st \<Longrightarrow> \<forall>r \<in> set rs. contribution (step r) \<noteq> None \<Longrightarrow>
     \<exists>st'. fold_result step rs st = Some (Inr st')"
  using self
proof (induction rs arbitrary: st)
  case Nil
  then show ?case by simp
next
  case (Cons r rs)
  have selfr: "simulates e c base_dir file (step r) (step r)"
    by (rule Cons.prems(3)) simp
  from Cons.prems(2) have "contribution (step r) \<noteq> None" by simp
  from run_of_contribution [OF selfr Cons.prems(1) this] obtain sa where
    a: "step r st = Some (Inr sa)"
    by blast
  from contribution_of_run [OF selfr Cons.prems(1) a] have inva: "visit_inv e c base_dir file sa"
    by blast
  have "\<And>r'. r' \<in> set rs \<Longrightarrow> simulates e c base_dir file (step r') (step r')"
    by (rule Cons.prems(3)) simp
  moreover from Cons.prems(2) have "\<forall>r \<in> set rs. contribution (step r) \<noteq> None"
    by simp
  ultimately obtain st' where "fold_result step rs sa = Some (Inr st')"
    using Cons.IH [OF inva] by blast
  with a show ?case by simp
qed

lemma fold_result_simulates:
  assumes self1: "\<And>r. r \<in> set rs1 \<Longrightarrow> simulates e c base_dir file (step1 r) (step1 r)"
    and self2: "\<And>r. r \<in> set rs2 \<Longrightarrow> simulates e c base_dir file (step2 r) (step2 r)"
    and x1: "\<And>r2. r2 \<in> set rs2 \<Longrightarrow> \<exists>r1 \<in> set rs1. simulates e c base_dir file (step1 r1) (step2 r2)"
    and x2: "\<And>r1. r1 \<in> set rs1 \<Longrightarrow> \<exists>r2 \<in> set rs2. simulates e c base_dir file (step1 r1) (step2 r2)"
  shows "simulates e c base_dir file (fold_result step1 rs1) (fold_result step2 rs2)"
  unfolding simulates_def
proof (intro allI impI)
  fix p1 p2 st1 st2 st1'
  assume sim: "visit_sim e c base_dir file p1 p2 st1 st2"
    and run1: "fold_result step1 rs1 st1 = Some (Inr st1')"
  from sim have inv1: "visit_inv e c base_dir file st1" and inv2: "visit_inv e c base_dir file st2"
    and al: "appended_alike p1 p2 (file_relations st1) (file_relations st2)"
    by (simp_all add: visit_sim_def)
  from fold_result_contributions [OF self1 inv1 run1] obtain a1 where
    inv1': "visit_inv e c base_dir file st1'"
    and all1: "\<forall>r \<in> set rs1. contribution (step1 r) \<noteq> None"
    and r1: "file_relations st1' = file_relations st1 @ a1"
    and s1: "set a1 = \<Union> {A. \<exists>r \<in> set rs1. contribution (step1 r) = Some A}"
    by blast
  have all2: "\<forall>r2 \<in> set rs2. contribution (step2 r2) \<noteq> None"
  proof
    fix r2 assume "r2 \<in> set rs2"
    from x1 [OF this] obtain r1 where r1: "r1 \<in> set rs1"
      and s: "simulates e c base_dir file (step1 r1) (step2 r2)"
      by blast
    from all1 r1 obtain A where "contribution (step1 r1) = Some A" by auto
    from contribution_simulated [OF s this] show "contribution (step2 r2) \<noteq> None"
      by simp
  qed
  from fold_result_succeeds [OF self2 inv2 all2] obtain st2' where
    run2: "fold_result step2 rs2 st2 = Some (Inr st2')"
    by blast
  from fold_result_contributions [OF self2 inv2 run2] obtain a2 where
    inv2': "visit_inv e c base_dir file st2'"
    and r2: "file_relations st2' = file_relations st2 @ a2"
    and s2: "set a2 = \<Union> {A. \<exists>r \<in> set rs2. contribution (step2 r) = Some A}"
    by blast
  have "{A. \<exists>r \<in> set rs1. contribution (step1 r) = Some A}
        = {A. \<exists>r \<in> set rs2. contribution (step2 r) = Some A}"
  proof (intro set_eqI iffI; clarify)
    fix A r1 assume r1: "r1 \<in> set rs1" and c: "contribution (step1 r1) = Some A"
    from x2 [OF r1] obtain r2 where "r2 \<in> set rs2"
      and s: "simulates e c base_dir file (step1 r1) (step2 r2)"
      by blast
    with contribution_simulated [OF s c] show "\<exists>r \<in> set rs2. contribution (step2 r) = Some A"
      by blast
  next
    fix A r2 assume r2: "r2 \<in> set rs2" and c: "contribution (step2 r2) = Some A"
    from x1 [OF r2] obtain r1 where r1: "r1 \<in> set rs1"
      and s: "simulates e c base_dir file (step1 r1) (step2 r2)"
      by blast
    from all1 r1 obtain B where b: "contribution (step1 r1) = Some B" by auto
    from contribution_simulated [OF s b] c have "B = A" by simp
    with r1 b show "\<exists>r \<in> set rs1. contribution (step1 r) = Some A"
      by blast
  qed
  with s1 s2 have "set a1 = set a2" by simp
  with al r1 r2 have "appended_alike p1 p2 (file_relations st1') (file_relations st2')"
    by (simp add: appended_alike_append)
  with inv1' inv2' run2
  show "\<exists>st2'. fold_result step2 rs2 st2 = Some (Inr st2') \<and> visit_sim e c base_dir file p1 p2 st1' st2'"
    by (simp add: visit_sim_def)
qed

lemma visit_sim_cong:
  assumes "fs_stat e1 = fs_stat e2" and "fs_read e1 = fs_read e2"
    and "RootPythonPackages c1 = RootPythonPackages c2"
  shows "visit_sim e1 c1 base_dir f = visit_sim e2 c2 base_dir f"
  by (intro ext)
     (simp add: visit_sim_def visit_inv_def cache_ok_cong [OF assms(1) assms(3)] assms(2))

lemma simulates_cong:
  assumes "fs_stat e1 = fs_stat e2" and "fs_read e1 = fs_read e2"
    and "RootPythonPackages c1 = RootPythonPackages c2"
  shows "simulates e1 c1 base_dir f = simulates e2 c2 base_dir f"
  by (intro ext) (simp add: simulates_def visit_sim_cong [OF assms])

lemma env_equiv_refl: "env_equiv e e"
  by (simp add: env_equiv_def option.rel_refl)

lemma checkExcludePatterns_cong:
  "glob_match e1 = glob_match e2 \<Longrightarrow>
   checkExcludePatterns e1 patterns f = checkExcludePatterns e2 patterns f"
  by (induction patterns) (simp_all split: option.splits)

lemma visit_sim_file_data:
  assumes "visit_sim e c base_dir f p1 p2 st1 st2"
    and "d = None \<or> d = fs_read e (filepath_Join [base_dir, f])"
  shows "visit_sim e c base_dir f p1 p2 (st1\<lparr>file_data := d\<rparr>) (st2\<lparr>file_data := d\<rparr>)"
  using assms by (auto simp: visit_sim_def visit_inv_def)

lemma regex_rule_step_sim:
  assumes eq: "env_equiv e1 e2" and roots: "RootPythonPackages c1 = RootPythonPackages c2"
  shows "simulates e1 c1 base_dir f (regex_rule_step e1 c1 base_dir f r)
           (regex_rule_step e2 c2 base_dir f r)"
  unfolding simulates_def
proof (intro allI impI)
  fix p1 p2 st1 st2 st1'
  assume sim: "visit_sim e1 c1 base_dir f p1 p2 st1 st2"
    and run: "regex_rule_step e1 c1 base_dir f r st1 = Some (Inr st1')"
  obtain pat acts where r: "r = (pat, acts)" by (cases r)
  from eq have gm: "glob_match e1 = glob_match e2" and rd: "fs_read e1 = fs_read e2"
    and rx: "regex_find_all e1 = regex_find_all e2"
    by (simp_all add: env_equiv_def)
  have ex: "checkExcludePatterns e2 (Exclude acts) f = checkExcludePatterns e1 (Exclude acts) f"
    by (rule checkExcludePatterns_cong [OF gm, symmetric])
  from run r obtain excluded where ex1: "checkExcludePatterns e1 (Exclude acts) f = Inr excluded"
    by (cases "checkExcludePatterns e1 (Exclude acts) f") (auto simp: regex_rule_step_def)
  show "\<exists>st2'. regex_rule_step e2 c2 base_dir f r st2 = Some (Inr st2')
          \<and> visit_sim e1 c1 base_dir f p1 p2 st1' st2'"
  proof (cases excluded)
    case True
    with run r ex1 ex sim show ?thesis
      by (simp add: regex_rule_step_def)
  next
    case False
    let ?path = "filepath_Join [base_dir, f]"
    from sim have inv1: "visit_inv e1 c1 base_dir f st1" and inv2: "visit_inv e1 c1 base_dir f st2"
      by (simp_all add: visit_sim_def)
    have read1: "read_file_data e1 base_dir f (file_data st1) = fs_read e1 ?path"
      using inv1 by (rule read_file_data_inv)
    have "read_file_data e2 base_dir f (file_data st2)
            = read_file_data e1 base_dir f (file_data st2)"
      by (cases "file_data st2") (simp_all add: read_file_data_def rd)
    also have "\<dots> = fs_read e1 ?path"
      using inv2 by (rule read_file_data_inv)
    finally have read2: "read_file_data e2 base_dir f (file_data st2) = fs_read e1 ?path" .
    from run r ex1 False read1 obtain data where data: "fs_read e1 ?path = Some data"
      by (cases "fs_read e1 ?path") (auto simp: regex_rule_step_def)
    from run r ex1 False read1 data obtain ms where ms: "regex_find_all e1 pat data = Some ms"
      by (cases "regex_find_all e1 pat data") (auto simp: regex_rule_step_def)
    from run r ex1 False read1 data ms
    have m1: "apply_regex_matches e1 c1 base_dir acts f ms (st1\<lparr>file_data := Some data\<rparr>)
                = Some (Inr st1')"
      by (cases "apply_regex_matches e1 c1 base_dir acts f ms (st1\<lparr>file_data := Some data\<rparr>)")
         (auto simp: regex_rule_step_def split: sum.splits)
    have "visit_sim e1 c1 base_dir f p1 p2 (st1\<lparr>file_data := Some data\<rparr>)
            (st2\<lparr>file_data := Some data\<rparr>)"
      using sim by (rule visit_sim_file_data) (simp add: data)
    from apply_regex_matches_sim [OF eq roots this m1] obtain st2' where
      m2: "apply_regex_matches e2 c2 base_dir acts f ms (st2\<lparr>file_data := Some data\<rparr>)
             = Some (Inr st2')"
      and sim': "visit_sim e1 c1 base_dir f p1 p2 st1' st2'"
      by blast
    from r ex ex1 False read2 data ms rx m2
    have "regex_rule_step e2 c2 base_dir f r st2 = Some (Inr st2')"
      by (simp add: regex_rule_step_def)
    with sim' show ?thesis by blast
  qed
qed

lemma apply_regex_rules_sim:
  assumes eq: "env_equiv e1 e2" and roots: "RootPythonPackages c1 = RootPythonPackages c2"
    and rules: "set rs1 = set rs2"
  shows "simulates e1 c1 base_dir f (apply_regex_rules e1 c1 base_dir f rs1)
           (apply_regex_rules e2 c2 base_dir f rs2)"
proof -
  from eq have st: "fs_stat e1 = fs_stat e2" and rd: "fs_read e1 = fs_read e2"
    by (simp_all add: env_equiv_def)
  have self1: "simulates e1 c1 base_dir f (regex_rule_step e1 c1 base_dir f r)
                 (regex_rule_step e1 c1 base_dir f r)" for r
    by (rule regex_rule_step_sim [OF env_equiv_refl refl])
  have "simulates e2 c2 base_dir f (regex_rule_step e2 c2 base_dir f r)
                 (regex_rule_step e2 c2 base_dir f r)" for r
    by (rule regex_rule_step_sim [OF env_equiv_refl refl])
  then have self2: "simulates e1 c1 base_dir f (regex_rule_step e2 c2 base_dir f r)
                 (regex_rule_step e2 c2 base_dir f r)" for r
    by (simp add: simulates_cong [OF st rd roots])
  have cross: "simulates e1 c1 base_dir f (regex_rule_step e1 c1 base_dir f r)
                 (regex_rule_step e2 c2 base_dir f r)" for r
    by (rule regex_rule_step_sim [OF eq roots])
  have "simulates e1 c1 base_dir f
          (fold_result (regex_rule_step e1 c1 base_dir f) rs1)
          (fold_result (regex_rule_step e2 c2 base_dir f) rs2)"
  proof (rule fold_result_simulates)
    show "simulates e1 c1 base_dir f (regex_rule_step e1 c1 base_dir f r)
            (regex_rule_step e1 c1 base_dir f r)" for r
      by (rule self1)
    show "simulates e1 c1 base_dir f (regex_rule_step e2 c2 base_dir f r)
            (regex_rule_step e2 c2 base_dir f r)" for r
      by (rule self2)
    show "\<exists>r1 \<in> set rs1. simulates e1 c1 base_dir f (regex_rule_step e1 c1 base_dir f r1)
            (regex_rule_step e2 c2 base_dir f r2)" if "r2 \<in> set rs2" for r2
      using that rules cross by blast
    show "\<exists>r2 \<in> set rs2. simulates e1 c1 base_dir f (regex_rule_step e1 c1 base_dir f r1)
            (regex_rule_step e2 c2 base_dir f r2)" if "r1 \<in> set rs1" for r1
      using that rules cross by blast
  qed
  then show ?thesis
    by (simp add: apply_regex_rules_fold [abs_def])
qed

lemma path_rule_step_sim:
  assumes eq: "env_equiv e1 e2" and roots: "RootPythonPackages c1 = RootPythonPackages c2"
    and norm: "rule_norm r1 = rule_norm r2"
  shows "simulates e1 c1 base_dir f (path_rule_step e1 c1 base_dir f r1)
           (path_rule_step e2 c2 base_dir f r2)"
  unfolding simulates_def
proof (intro allI impI)
  fix p1 p2 st1 st2 st1'
  assume sim: "visit_sim e1 c1 base_dir f p1 p2 st1 st2"
    and run: "path_rule_step e1 c1 base_dir f r1 st1 = Some (Inr st1')"
  obtain pat pr1 where r1: "r1 = (pat, pr1)" by (cases r1)
  obtain pat2 pr2 where r2: "r2 = (pat2, pr2)" by (cases r2)
  from norm r1 r2 have pat2: "pat2 = pat" and acts: "Actions pr2 = Actions pr1"
    and ms: "mset (RegexRules pr1) = mset (RegexRules pr2)"
    by (simp_all add: rule_norm_def)
  from ms have rules: "set (RegexRules pr1) = set (RegexRules pr2)"
    by (rule mset_eq_setD)
  from eq have gm: "glob_match e2 = glob_match e1"
    by (simp add: env_equiv_def)
  from run r1 obtain m where m: "glob_match e1 pat f = Some m"
    by (cases "glob_match e1 pat f") (auto simp: path_rule_step_def)
  show "\<exists>st2'. path_rule_step e2 c2 base_dir f r2 st2 = Some (Inr st2')
          \<and> visit_sim e1 c1 base_dir f p1 p2 st1' st2'"
  proof (cases m)
    case False
    with run r1 r2 pat2 m gm sim show ?thesis
      by (simp add: path_rule_step_def)
  next
    case True
    from run r1 m True obtain sa where
      a1: "applyActions e1 c1 base_dir (Actions pr1) f [] (st1\<lparr>file_data := None\<rparr>) = Some (Inr sa)"
      by (cases "applyActions e1 c1 base_dir (Actions pr1) f [] (st1\<lparr>file_data := None\<rparr>)")
         (auto simp: path_rule_step_def split: sum.splits)
    from run r1 m True a1 have b1:
      "apply_regex_rules e1 c1 base_dir f (RegexRules pr1) sa = Some (Inr st1')"
      by (cases "apply_regex_rules e1 c1 base_dir f (RegexRules pr1) sa")
         (auto simp: path_rule_step_def split: sum.splits)
    have "visit_sim e1 c1 base_dir f p1 p2 (st1\<lparr>file_data := None\<rparr>) (st2\<lparr>file_data := None\<rparr>)"
      using sim by (rule visit_sim_file_data) simp
    from applyActions_sim [OF eq roots this a1] obtain sb where
      a2: "applyActions e2 c2 base_dir (Actions pr1) f [] (st2\<lparr>file_data := None\<rparr>) = Some (Inr sb)"
      and sim': "visit_sim e1 c1 base_dir f p1 p2 sa sb"
      by blast
    from apply_regex_rules_sim [OF eq roots rules, of base_dir f] sim' b1 obtain st2' where
      b2: "apply_regex_rules e2 c2 base_dir f (RegexRules pr2) sb = Some (Inr st2')"
      and sim'': "visit_sim e1 c1 base_dir f p1 p2 st1' st2'"
      unfolding simulates_def by blast
    from r2 pat2 acts m gm True a2 b2
    have "path_rule_step e2 c2 base_dir f r2 st2 = Some (Inr st2')"
      by (simp add: path_rule_step_def)
    with sim'' show ?thesis by blast
  qed
qed

lemma rule_norm_member:
  assumes "mset (map rule_norm rs1) = mset (map rule_norm rs2)" and "r1 \<in> set rs1"
  shows "\<exists>r2 \<in> set rs2. rule_norm r1 = rule_norm r2"
proof -
  from assms(2) have "rule_norm r1 \<in> set (map rule_norm rs1)"
    by simp
  also from assms(1) have "set (map rule_norm rs1) = set (map rule_norm rs2)"
    by (rule mset_eq_setD)
  finally show ?thesis
    by auto
qed

lemma apply_path_rules_sim:
  assumes eq: "env_equiv e1 e2" and roots: "RootPythonPackages c1 = RootPythonPackages c2"
    and rules: "mset (map rule_norm rs1) = mset (map rule_norm rs2)"
  shows "simulates e1 c1 base_dir f (apply_path_rules e1 c1 base_dir f rs1)
           (apply_path_rules e2 c2 base_dir f rs2)"
proof -
  from eq have st: "fs_stat e1 = fs_stat e2" and rd: "fs_read e1 = fs_read e2"
    by (simp_all add: env_equiv_def)
  have "simulates e2 c2 base_dir f (path_rule_step e2 c2 base_dir f r)
                 (path_rule_step e2 c2 base_dir f r)" for r
    by (rule path_rule_step_sim [OF env_equiv_refl refl refl])
  then have self2: "simulates e1 c1 base_dir f (path_rule_step e2 c2 base_dir f r)
                 (path_rule_step e2 c2 base_dir f r)" for r
    by (simp add: simulates_cong [OF st rd roots])
  have "simulates e1 c1 base_dir f
          (fold_result (path_rule_step e1 c1 base_dir f) rs1)
          (fold_result (path_rule_step e2 c2 base_dir f) rs2)"
  proof (rule fold_result_simulates)
    show "simulates e1 c1 base_dir f (path_rule_step e1 c1 base_dir f r)
            (path_rule_step e1 c1 base_dir f r)" for r
      by (rule path_rule_step_sim [OF env_equiv_refl refl refl])
    show "simulates e1 c1 base_dir f (path_rule_step e2 c2 base_dir f r)
            (path_rule_step e2 c2 base_dir f r)" for r
      by (rule self2)
    show "\<exists>r1 \<in> set rs1. simulates e1 c1 base_dir f (path_rule_step e1 c1 base_dir f r1)
            (path_rule_step e2 c2 base_dir f r2)" if "r2 \<in> set rs2" for r2
    proof -
      from rule_norm_member [OF rules [symmetric] that] obtain r1 where
        "r1 \<in> set rs1" "rule_norm r1 = rule_norm r2"
        by auto
      with path_rule_step_sim [OF eq roots, of r1 r2] show ?thesis
        by blast
    qed
    show "\<exists>r2 \<in> set rs2. simulates e1 c1 base_dir f (path_rule_step e1 c1 base_dir f r1)
            (path_rule_step e2 c2 base_dir f r2)" if "r1 \<in> set rs1" for r1
    proof -
      from rule_norm_member [OF rules that] obtain r2 where
        "r2 \<in> set rs2" "rule_norm r1 = rule_norm r2"
        by auto
      with path_rule_step_sim [OF eq roots, of r1 r2] show ?thesis
        by blast
    qed
  qed
  then show ?thesis
    by (simp add: apply_path_rules_fold [abs_def])
qed

lemma visitFile_sim:
  assumes eq: "env_equiv e1 e2" and ceq: "config_equiv c1 c2"
    and ok1: "cache_ok e1 c1 base_dir cache1" and ok2: "cache_ok e1 c1 base_dir cache2"
    and run: "visitFile e1 c1 base_dir f rels cache1 = Some (Inr (rels1, cache1'))"
  shows "\<exists>rels2 cache2'. visitFile e2 c2 base_dir f rels cache2 = Some (Inr (rels2, cache2'))
           \<and> appended_alike rels rels rels1 rels2
           \<and> cache_ok e1 c1 base_dir cache1' \<and> cache_ok e1 c1 base_dir cache2'"
proof -
  from ceq have roots: "RootPythonPackages c1 = RootPythonPackages c2"
    and ge: "GlobalExclude c2 = GlobalExclude c1"
    and rules: "mset (map rule_norm (PathRules c1)) = mset (map rule_norm (PathRules c2))"
    by (simp_all add: config_equiv_def)
  from eq have gm: "glob_match e1 = glob_match e2"
    by (simp add: env_equiv_def)
  have ex: "checkExcludePatterns e2 (GlobalExclude c1) f = checkExcludePatterns e1 (GlobalExclude c1) f"
    by (rule checkExcludePatterns_cong [OF gm, symmetric])
  from run obtain excluded where ex1: "checkExcludePatterns e1 (GlobalExclude c1) f = Inr excluded"
    by (cases "checkExcludePatterns e1 (GlobalExclude c1) f") (auto simp: visitFile_def)
  show ?thesis
  proof (cases excluded)
    case True
    with run ex1 have "rels1 = rels" "cache1' = cache1"
      by (simp_all add: visitFile_def)
    moreover from True ex ex1 ge
    have "visitFile e2 c2 base_dir f rels cache2 = Some (Inr (rels, cache2))"
      by (simp add: visitFile_def)
    ultimately show ?thesis
      using ok1 ok2 by (simp add: appended_alike_refl)
  next
    case False
    let ?s1 = "\<lparr> file_data = None, file_relations = rels, resolver = cache1 \<rparr>"
    let ?s2 = "\<lparr> file_data = None, file_relations = rels, resolver = cache2 \<rparr>"
    from run ex1 False obtain st1' where
      p1: "apply_path_rules e1 c1 base_dir f (PathRules c1) ?s1 = Some (Inr st1')"
      and res1: "rels1 = file_relations st1'" "cache1' = resolver st1'"
      by (cases "apply_path_rules e1 c1 base_dir f (PathRules c1) ?s1")
         (auto simp: visitFile_def split: sum.splits)
    have "visit_sim e1 c1 base_dir f rels rels ?s1 ?s2"
      using ok1 ok2 by (simp add: visit_sim_def visit_inv_def appended_alike_refl)
    with apply_path_rules_sim [OF eq roots rules, of base_dir f] p1 obtain st2' where
      p2: "apply_path_rules e2 c2 base_dir f (PathRules c2) ?s2 = Some (Inr st2')"
      and sim: "visit_sim e1 c1 base_dir f rels rels st1' st2'"
      unfolding simulates_def by blast
    from False ex ex1 ge p2
    have "visitFile e2 c2 base_dir f rels cache2
            = Some (Inr (file_relations st2', resolver st2'))"
      by (simp add: visitFile_def)
    with sim res1 show ?thesis
      by (simp add: visit_sim_def visit_inv_def)
  qed
qed

lemma distinct_remdups_adj_sorted:
  fixes xs :: "'a::linorder list"
  shows "sorted xs \<Longrightarrow> distinct (remdups_adj xs)"
  by (induction xs rule: remdups_adj.induct) (auto simp: less_le)

lemma sort_compact_set:
  fixes xs ys :: "string list"
  assumes "set xs = set ys"
  shows "remdups_adj (sort xs) = remdups_adj (sort ys)"
proof (rule sorted_distinct_set_unique)
  show "sorted (remdups_adj (sort xs))" by (simp add: sorted_remdups_adj)
  show "sorted (remdups_adj (sort ys))" by (simp add: sorted_remdups_adj)
  show "distinct (remdups_adj (sort xs))" by (simp add: distinct_remdups_adj_sorted)
  show "distinct (remdups_adj (sort ys))" by (simp add: distinct_remdups_adj_sorted)
  show "set (remdups_adj (sort xs)) = set (remdups_adj (sort ys))"
    using assms by simp
qed

lemma save_relations_sim:
  assumes sim: "graph_sim e c base_dir st1 st2"
    and al: "appended_alike (global_deps_items st1) (global_deps_items st1) rels1 rels2"
  shows "snd (save_relations f rels1 st1) = snd (save_relations f rels2 st2)
     \<and> graph_sim e c base_dir (fst (save_relations f rels1 st1)) (fst (save_relations f rels2 st2))"
proof -
  let ?gd = "global_deps_items st1"
  from sim have gd: "global_deps_items st2 = ?gd"
    by (simp add: graph_sim_def)
  from al obtain a1 a2 where r1: "rels1 = ?gd @ a1" and r2: "rels2 = ?gd @ a2"
    and a: "set a1 = set a2"
    by (auto simp: appended_alike_def)
  then have "set rels1 = set rels2" by simp
  then have comp: "remdups_adj (sort rels1) = remdups_adj (sort rels2)"
    by (rule sort_compact_set)
  have nil: "a1 = [] \<longleftrightarrow> a2 = []"
  proof -
    have "a1 = [] \<longleftrightarrow> set a1 = {}" by simp
    also have "\<dots> \<longleftrightarrow> set a2 = {}" by (simp only: a)
    also have "\<dots> \<longleftrightarrow> a2 = []" by simp
    finally show ?thesis .
  qed
  have len1: "length rels1 = length ?gd \<longleftrightarrow> a1 = []"
    using r1 by simp
  have len2: "length rels2 = length ?gd \<longleftrightarrow> a2 = []"
    using r2 by simp
  show ?thesis
  proof (cases "a1 = []")
    case True
    with nil r1 r2 have "rels1 = ?gd" "rels2 = ?gd" by simp_all
    with sim gd show ?thesis
      by (simp add: save_relations_def Let_def graph_sim_def)
  next
    case False
    with nil len1 len2 have "length rels1 \<noteq> length ?gd" "length rels2 \<noteq> length ?gd"
      by simp_all
    with sim gd comp show ?thesis
      by (simp add: save_relations_def Let_def graph_sim_def)
  qed
qed

lemma visit_input_files_sim:
  assumes eq: "env_equiv e1 e2" and ceq: "config_equiv c1 c2"
  shows "graph_sim e1 c1 base_dir st1 st2 \<Longrightarrow>
     visit_input_files e1 c1 base_dir files st1 related_files = Some (Inr (st1', related_files')) \<Longrightarrow>
     \<exists>st2'. visit_input_files e2 c2 base_dir files st2 related_files
              = Some (Inr (st2', related_files'))
          \<and> graph_sim e1 c1 base_dir st1' st2'"
proof (induction files arbitrary: st1 st2 related_files)
  case Nil
  then show ?case by simp
next
  case (Cons f files)
  from Cons.prems(1) have seen: "all_files_set st2 = all_files_set st1"
    and gd: "global_deps_items st2 = global_deps_items st1"
    and ok1: "cache_ok e1 c1 base_dir (python_mod_resolver st1)"
    and ok2: "cache_ok e1 c1 base_dir (python_mod_resolver st2)"
    by (simp_all add: graph_sim_def)
  show ?case
  proof (cases "f \<in> all_files_set st1")
    case True
    with Cons.prems(2) have
      "visit_input_files e1 c1 base_dir files st1 related_files = Some (Inr (st1', related_files'))"
      by simp
    from Cons.IH [OF Cons.prems(1) this] True seen show ?thesis
      by simp
  next
    case False
    let ?gd = "global_deps_items st1"
    from Cons.prems(2) False obtain rels1 cache1 where
      v1: "visitFile e1 c1 base_dir f ?gd (python_mod_resolver st1) = Some (Inr (rels1, cache1))"
      by (cases "visitFile e1 c1 base_dir f ?gd (python_mod_resolver st1)")
         (auto split: sum.splits)
    from visitFile_sim [OF eq ceq ok1 ok2 v1] obtain rels2 cache2 where
      v2: "visitFile e2 c2 base_dir f ?gd (python_mod_resolver st2) = Some (Inr (rels2, cache2))"
      and al: "appended_alike ?gd ?gd rels1 rels2"
      and ok1': "cache_ok e1 c1 base_dir cache1" and ok2': "cache_ok e1 c1 base_dir cache2"
      by blast
    let ?t1 = "st1\<lparr> all_files_set := insert f (all_files_set st1), python_mod_resolver := cache1 \<rparr>"
    let ?t2 = "st2\<lparr> all_files_set := insert f (all_files_set st2), python_mod_resolver := cache2 \<rparr>"
    have gs: "graph_sim e1 c1 base_dir ?t1 ?t2"
      using Cons.prems(1) ok1' ok2' by (simp add: graph_sim_def)
    have al': "appended_alike (global_deps_items ?t1) (global_deps_items ?t1) rels1 rels2"
      using al by simp
    from save_relations_sim [OF gs al', of f]
    have s: "snd (save_relations f rels1 ?t1) = snd (save_relations f rels2 ?t2)"
      and gs': "graph_sim e1 c1 base_dir (fst (save_relations f rels1 ?t1))
                  (fst (save_relations f rels2 ?t2))"
      by simp_all
    from Cons.prems(2) False v1 have rest:
      "visit_input_files e1 c1 base_dir files (fst (save_relations f rels1 ?t1))
         (related_files @ snd (save_relations f rels1 ?t1)) = Some (Inr (st1', related_files'))"
      by (simp add: case_prod_beta)
    from Cons.IH [OF gs' rest] obtain st2' where
      "visit_input_files e2 c2 base_dir files (fst (save_relations f rels2 ?t2))
         (related_files @ snd (save_relations f rels1 ?t1)) = Some (Inr (st2', related_files'))"
      and "graph_sim e1 c1 base_dir st1' st2'"
      by blast
    with False seen gd v2 s show ?thesis
      by (simp add: case_prod_beta)
  qed
qed

lemma visit_waves_sim:
  assumes eq: "env_equiv e1 e2" and ceq: "config_equiv c1 c2"
    and run: "visit_waves e1 c1 base_dir input_files st1 = Some (Inr st1')"
    and sim: "graph_sim e1 c1 base_dir st1 st2"
  shows "\<exists>st2'. visit_waves e2 c2 base_dir input_files st2 = Some (Inr st2')
           \<and> graph_sim e1 c1 base_dir st1' st2'"
proof -
  have "e = e1 \<and> c = c1 \<longrightarrow> (\<forall>st2 st1'. y = Inr st1' \<longrightarrow> graph_sim e1 c1 b st st2 \<longrightarrow>
          (\<exists>st2'. visit_waves e2 c2 b fs st2 = Some (Inr st2') \<and> graph_sim e1 c1 b st1' st2'))"
    if h: "visit_waves e c b fs st = Some y" for e c b fs st y
  proof (rule visit_waves.raw_induct
      [where P = "\<lambda>e c b fs st y. e = e1 \<and> c = c1 \<longrightarrow> (\<forall>st2 st1'. y = Inr st1' \<longrightarrow>
          graph_sim e1 c1 b st st2 \<longrightarrow>
          (\<exists>st2'. visit_waves e2 c2 b fs st2 = Some (Inr st2') \<and> graph_sim e1 c1 b st1' st2'))",
        OF _ h], goal_cases)
    case (1 w e c b fs st y)
    show ?case
    proof (intro impI allI)
      fix st2 st1'
      assume ec: "e = e1 \<and> c = c1" and y: "y = Inr st1'" and gs: "graph_sim e1 c1 b st st2"
      from "1"(2) ec y obtain sa rel where
        a1: "visit_input_files e1 c1 b fs st [] = Some (Inr (sa, rel))"
        by (cases "visit_input_files e1 c1 b fs st []") (auto split: sum.splits)
      from visit_input_files_sim [OF eq ceq gs a1] obtain sb where
        a2: "visit_input_files e2 c2 b fs st2 [] = Some (Inr (sb, rel))"
        and gs': "graph_sim e1 c1 b sa sb"
        by blast
      show "\<exists>st2'. visit_waves e2 c2 b fs st2 = Some (Inr st2') \<and> graph_sim e1 c1 b st1' st2'"
      proof (cases "rel = []")
        case True
        with "1"(2) ec y a1 have "st1' = sa" by simp
        with True a2 gs' show ?thesis
          by (subst visit_waves.simps) simp
      next
        case False
        with "1"(2) ec y a1 have "w e1 c1 b (remdups_adj (sort rel)) sa = Some (Inr st1')"
          by simp
        from "1"(1) [OF this] gs' obtain st2' where
          "visit_waves e2 c2 b (remdups_adj (sort rel)) sb = Some (Inr st2')"
          "graph_sim e1 c1 b st1' st2'"
          by blast
        with False a2 show ?thesis
          by (subst visit_waves.simps) simp
      qed
    qed
  qed
  from this [OF run] sim show ?thesis
    by blast
qed

lemma VisitRecursively_sim:
  assumes eq: "env_equiv e1 e2" and ceq: "config_equiv c1 c2"
    and run: "VisitRecursively e1 c1 base_dir input_files = Some (Inr st1)"
  shows "\<exists>st2. VisitRecursively e2 c2 base_dir input_files = Some (Inr st2)
           \<and> relations_of st2 = relations_of st1 \<and> all_files_set st2 = all_files_set st1"
proof -
  from ceq have gd: "GlobalDeps c2 = GlobalDeps c1"
    by (simp add: config_equiv_def)
  let ?s = "\<lparr> all_files_set = {}, file_relation_map = [],
              global_deps_items = GlobalDeps c1, python_mod_resolver = Map.empty \<rparr>"
  have "graph_sim e1 c1 base_dir ?s ?s"
    by (simp add: graph_sim_def cache_ok_empty)
  from visit_waves_sim [OF eq ceq _ this] run obtain st2 where
    "visit_waves e2 c2 base_dir input_files ?s = Some (Inr st2)"
    and "graph_sim e1 c1 base_dir st1 st2"
    unfolding VisitRecursively_def by blast
  with gd show ?thesis
    by (simp add: VisitRecursively_def graph_sim_def relations_of_def)
qed

lemma BuildFullDepList_returns: "\<exists>dep_list. BuildFullDepList m f = Some dep_list"
proof -
  let ?U = "insert f (set (map fst m) \<union> \<Union> (set ` set (map snd m)))"
  have fin: "finite ?U" by simp
  have closed: "set (related m g) \<subseteq> ?U" for g
    by (rule related_in_values)
  have "set [f] \<subseteq> ?U" by simp
  from buildDepList_correct [OF fin closed this order_refl, of "{}" "[]"]
  obtain new where "buildDepList m [f] ({}, []) = Some ({} \<union> set new, [] @ new)"
    by blast
  then show ?thesis
    by (simp add: BuildFullDepList_def)
qed

lemma hash_tasks_value:
  "hash_tasks sha256 args h fh m order acc
     = Some (\<lambda>f. if f \<in> set order \<and> OutDepHashes args \<noteq> []
                  then Some (dependency_hash sha256 (HashSalt args) h fh f
                               (the (BuildFullDepList m f)))
                  else acc f)"
proof (induction order arbitrary: acc)
  case Nil
  show ?case by simp
next
  case (Cons x order)
  from BuildFullDepList_returns obtain dl where dl: "BuildFullDepList m x = Some dl"
    by blast
  show ?case
    by (simp add: dl Cons.IH) (auto simp: dl fun_eq_iff)
qed

lemma hash_tasks_order:
  "set o1 = set o2 \<Longrightarrow>
   hash_tasks sha256 args h fh m o1 acc = hash_tasks sha256 args h fh m o2 acc"
  by (simp add: hash_tasks_value)

lemma CalculateFileHashes_cong:
  "fs_read e1 = fs_read e2 \<Longrightarrow>
   CalculateFileHashes sha256 e1 files base_dir = CalculateFileHashes sha256 e2 files base_dir"
  by (auto simp: CalculateFileHashes_def fun_eq_iff)

lemma write_outputs_cong:
  assumes "fs_read e1 = fs_read e2" and "relations_of st1 = relations_of st2"
    and "all_files_set st1 = all_files_set st2" and "set o1 = set o2"
  shows "write_outputs sha256 e1 args h base_dir input_files o1 st1
           = write_outputs sha256 e2 args h base_dir input_files o2 st2"
  unfolding write_outputs_def
  by (simp only: assms(2) assms(3) CalculateFileHashes_cong [OF assms(1)]
        hash_tasks_order [OF assms(4)])

lemma collect_input_files_sim:
  assumes eq: "env_equiv e1 e2"
  shows "set acc1 = set acc2 \<Longrightarrow> collect_input_files e1 base_dir inputs acc1 = Inr x1 \<Longrightarrow>
     \<exists>x2. collect_input_files e2 base_dir inputs acc2 = Inr x2 \<and> set x1 = set x2"
proof (induction inputs arbitrary: acc1 acc2)
  case Nil
  then show ?case by simp
next
  case (Cons input inputs)
  from Cons.prems(2) obtain chunk1 where g1: "fs_glob e1 False base_dir input = Some chunk1"
    and rest: "collect_input_files e1 base_dir inputs (acc1 @ chunk1) = Inr x1"
    by (cases "fs_glob e1 False base_dir input") auto
  from env_equiv_glob [OF eq g1] obtain chunk2 where g2: "fs_glob e2 False base_dir input = Some chunk2"
    and "set chunk2 = set chunk1"
    by blast
  with Cons.prems(1) have "set (acc1 @ chunk1) = set (acc2 @ chunk2)"
    by simp
  from Cons.IH [OF this rest] g2 show ?case
    by simp
qed

lemma config_equiv_effective:
  "config_equiv c1 c2 \<Longrightarrow> config_equiv (effective_config args c1) (effective_config args c2)"
  by (simp add: config_equiv_def effective_config_def)

lemma rel_option_flip:
  "rel_option R x y \<Longrightarrow> (\<And>a b. R a b \<Longrightarrow> S b a) \<Longrightarrow> rel_option S y x"
  by (cases x; cases y) auto

lemma env_equiv_sym:
  assumes "env_equiv e1 e2"
  shows "env_equiv e2 e1"
proof -
  have "rel_option (\<lambda>xs ys. mset xs = mset ys) (fs_glob e2 fo d p) (fs_glob e1 fo d p)" for fo d p
  proof (rule rel_option_flip)
    show "rel_option (\<lambda>xs ys. mset xs = mset ys) (fs_glob e1 fo d p) (fs_glob e2 fo d p)"
      using assms by (simp add: env_equiv_def)
    show "mset b = mset a" if "mset a = mset b" for a b :: "string list"
      using that by simp
  qed
  with assms show ?thesis
    by (simp add: env_equiv_def)
qed

lemma config_equiv_sym: "config_equiv c1 c2 \<Longrightarrow> config_equiv c2 c1"
  by (simp add: config_equiv_def)

lemma main_with_config_sim:
  assumes eq: "env_equiv e1 e2" and ceq: "config_equiv c1 c2"
    and o1: "\<And>xs. mset (order1 xs) = mset xs" and o2: "\<And>xs. mset (order2 xs) = mset xs"
    and run: "main_with_config sha256 e1 args c1 h order1 = Some (Completed out)"
  shows "main_with_config sha256 e2 args c2 h order2 = Some (Completed out)"
proof -
  let ?c1 = "effective_config args c1" and ?c2 = "effective_config args c2"
  have ceq': "config_equiv ?c1 ?c2"
    using ceq by (rule config_equiv_effective)
  then have inputs: "Inputs ?c2 = Inputs ?c1" and bd: "base_dir_of args ?c2 = base_dir_of args ?c1"
    by (simp_all add: config_equiv_def base_dir_of_def)
  let ?b = "base_dir_of args ?c1"
  from eq have rd: "fs_read e1 = fs_read e2"
    by (simp add: env_equiv_def)
  from run obtain col1 where col1: "collect_input_files e1 ?b (Inputs ?c1) [] = Inr col1"
    by (cases "collect_input_files e1 ?b (Inputs ?c1) []") (auto simp: main_with_config_def Let_def)
  let ?inputs = "remdups_adj (sort col1)"
  from run col1 have nonempty: "?inputs \<noteq> []"
    by (auto simp: main_with_config_def Let_def split: if_splits)
  from run col1 nonempty obtain st1 where
    v1: "VisitRecursively e1 ?c1 ?b ?inputs = Some (Inr st1)"
    by (cases "VisitRecursively e1 ?c1 ?b ?inputs")
       (auto simp: main_with_config_def Let_def split: sum.splits)
  from run col1 nonempty v1 have w1:
    "write_outputs sha256 e1 args h ?b ?inputs (order1 ?inputs) st1 = Some (Completed out)"
    by (simp add: main_with_config_def Let_def)
  from collect_input_files_sim [OF eq refl col1] obtain col2 where
    col2: "collect_input_files e2 ?b (Inputs ?c1) [] = Inr col2" and cols: "set col1 = set col2"
    by blast
  from cols [symmetric] have same: "remdups_adj (sort col2) = ?inputs"
    by (rule sort_compact_set)
  from VisitRecursively_sim [OF eq ceq' v1] obtain st2 where
    v2: "VisitRecursively e2 ?c2 ?b ?inputs = Some (Inr st2)"
    and rel: "relations_of st2 = relations_of st1" and seen: "all_files_set st2 = all_files_set st1"
    by blast
  have "set (order2 ?inputs) = set (order1 ?inputs)"
    using mset_eq_setD [OF o1 [of ?inputs]] mset_eq_setD [OF o2 [of ?inputs]] by simp
  from write_outputs_cong [OF rd [symmetric] rel seen this] w1
  have "write_outputs sha256 e2 args h ?b ?inputs (order2 ?inputs) st2 = Some (Completed out)"
    by simp
  with col2 same nonempty v2 inputs bd show ?thesis
    by (simp add: main_with_config_def Let_def)
qed

text \<open>
  Claim C7. Take two runs on the same tree and configuration that differ in the order in
  which globs enumerate their matches, in the order in which the path rules and the regex
  rules are iterated, and in the order in which the tasks of the input files complete.
  Then one run ends with the outputs \<open>out\<close> (the relations and the dependency hashes) if
  and only if the other run ends with the same outputs.
\<close>

theorem outputs_independent_of_enumeration_order:
  assumes "env_equiv e1 e2" and "config_equiv c1 c2"
    and "\<And>xs. mset (order1 xs) = mset xs" and "\<And>xs. mset (order2 xs) = mset xs"
  shows "main_with_config sha256 e1 args c1 config_hash order1 = Some (Completed out)
     \<longleftrightarrow> main_with_config sha256 e2 args c2 config_hash order2 = Some (Completed out)"
proof
  assume "main_with_config sha256 e1 args c1 config_hash order1 = Some (Completed out)"
  with assms show "main_with_config sha256 e2 args c2 config_hash order2 = Some (Completed out)"
    by (rule main_with_config_sim)
next
  assume "main_with_config sha256 e2 args c2 config_hash order2 = Some (Completed out)"
  with env_equiv_sym [OF assms(1)] config_equiv_sym [OF assms(2)] assms(4) assms(3)
  show "main_with_config sha256 e1 args c1 config_hash order1 = Some (Completed out)"
    by (rule main_with_config_sim)
qed

lemma mset_map_filter:
  "mset (List.map_filter g xs) = image_mset (the \<circ> g) (filter_mset (\<lambda>x. g x \<noteq> None) (mset xs))"
  by (simp add: List.map_filter_def)

lemma tree_env_rev:
  assumes "distinct (map fst files)"
  shows "env_equiv (tree_env regex files) (tree_env regex (rev files))"
proof -
  have dirs_set: "set (tree_dirs (rev files)) = set (tree_dirs files)"
    by (simp add: tree_dirs_def)
  have "set (concat (map (ancestors \<circ> fst) (rev files))) = set (concat (map (ancestors \<circ> fst) files))"
    by simp
  then have dirs: "mset (tree_dirs (rev files)) = mset (tree_dirs files)"
    unfolding tree_dirs_def by (simp only: set_eq_iff_mset_remdups_eq)
  have read: "map_of files = map_of (rev files)"
    using assms by (subst map_of_inject_set) (simp_all add: distinct_rev rev_map [symmetric])
  have stat: "tree_stat files = tree_stat (rev files)"
    by (rule ext) (simp add: tree_stat_def dirs_set)
  have glob: "mset (filter (pattern_match p) (List.map_filter (relative_to d)
                 (map fst files @ (if fo then [] else tree_dirs files))))
            = mset (filter (pattern_match p) (List.map_filter (relative_to d)
                 (map fst (rev files) @ (if fo then [] else tree_dirs (rev files)))))" for fo d p
  proof -
    have "mset (map fst files @ (if fo then [] else tree_dirs files))
            = mset (map fst (rev files) @ (if fo then [] else tree_dirs (rev files)))"
      by (simp add: dirs)
    then have "mset (List.map_filter (relative_to d) (map fst files @ (if fo then [] else tree_dirs files)))
            = mset (List.map_filter (relative_to d)
                (map fst (rev files) @ (if fo then [] else tree_dirs (rev files))))"
      by (simp only: mset_map_filter)
    then show ?thesis
      by (simp only: mset_filter)
  qed
  have "rel_option (\<lambda>xs ys. mset xs = mset ys) (tree_glob files fo d p) (tree_glob (rev files) fo d p)"
    for fo d p
    unfolding tree_glob_def option.rel_inject by (rule glob)
  with read stat show ?thesis
    by (simp add: env_equiv_def tree_env_def)
qed


theorem outputs_independent_of_enumeration_order_witness:
  "env_equiv scenario_env reversed_env \<and> config_equiv scenario_config reversed_config
   \<and> main_with_config toy_sha256 scenario_env hashes_args scenario_config ''h'' id
       = Some (Completed scenario_outputs)
   \<and> main_with_config toy_sha256 reversed_env hashes_args reversed_config ''h'' rev
       = Some (Completed scenario_outputs)"
proof -
  have "distinct (map fst scenario_tree)"
    by code_simp
  then have e: "env_equiv scenario_env reversed_env"
    unfolding scenario_env_def reversed_env_def by (rule tree_env_rev)
  have c: "config_equiv scenario_config reversed_config"
    by (simp add: config_equiv_def reversed_config_def)
  have r: "main_with_config toy_sha256 scenario_env hashes_args scenario_config ''h'' id
             = Some (Completed scenario_outputs)"
    by code_simp
  have o1: "mset (id xs) = mset xs" and o2: "mset (rev xs) = mset xs" for xs :: "string list"
    by simp_all
  from outputs_independent_of_enumeration_order [OF e c o1 o2, of toy_sha256 hashes_args "''h''"
      scenario_outputs] r
  have "main_with_config toy_sha256 reversed_env hashes_args reversed_config ''h'' rev
             = Some (Completed scenario_outputs)"
    by (simp add: id_def)
  with e c r show ?thesis by simp
qed

end
